theory Spec2Isabelle
  imports Main "HOL-Library.Word"
begin

unbundle bit_operations_syntax

section \<open>Bytes, errors and the pieces of the Go library the package calls\<close>

type_synonym byte = "8 word"
type_synonym bytes = "byte list"

text \<open>
  The error values of the package (ecies.go, the ASN.1 file and the parameter file), the
  error of a reader that cannot deliver (\<open>ErrReader\<close>), the error of a block-cipher
  constructor that refuses its key (\<open>ErrCipher\<close>), a failure of the DER or PEM codec
  (\<open>ErrCodec\<close>), and \<open>Panic\<close> for every run-time panic of Go (slice bounds, a negative
  length given to make, integer division by zero, a nil interface, a library panic).
\<close>

datatype error =
    ErrImport
  | ErrInvalidCurve
  | ErrInvalidParams
  | ErrInvalidPublicKey
  | ErrInvalidPrivateKey
  | ErrSharedKeyIsPointAtInfinity
  | ErrSharedKeyTooBig
  | ErrKeyDataTooLong
  | ErrSharedTooLong
  | ErrInvalidMessage
  | ErrUnsupportedECIESParameters
  | ErrReader
  | ErrCipher
  | ErrCodec
  | Panic

subsection \<open>math/big: SetBytes, Bytes, FillBytes\<close>

text \<open>\<open>new(big.Int).SetBytes(b)\<close>: the bytes read as a big-endian unsigned integer.\<close>

definition SetBytes :: "bytes \<Rightarrow> int" where
  "SetBytes bs = foldl (\<lambda>a b. a * 256 + uint b) 0 bs"

text \<open>\<open>x.Bytes()\<close>: the absolute value of x as a big-endian byte string without leading
  zero bytes (empty for 0).\<close>

fun be_bytes :: "nat \<Rightarrow> bytes" where
  "be_bytes n = (if n = 0 then [] else be_bytes (n div 256) @ [of_nat (n mod 256)])"

declare be_bytes.simps [simp del]

definition Bytes :: "int \<Rightarrow> bytes" where
  "Bytes x = be_bytes (nat \<bar>x\<bar>)"

text \<open>\<open>x.FillBytes(buf)\<close> with a buffer of n bytes: the absolute value of x, zero-extended
  on the left to n bytes; it panics when the value does not fit.\<close>

definition FillBytes :: "int \<Rightarrow> nat \<Rightarrow> error + bytes" where
  "FillBytes x n =
     (if n < length (Bytes x) then Inl Panic
      else Inr (replicate (n - length (Bytes x)) 0 @ Bytes x))"

subsection \<open>io.Reader and io.ReadFull\<close>

text \<open>The caller's randomness source is a reader: the bytes it still has to deliver.
  ReadFull takes n of them, or fails when the reader ends before.\<close>

type_synonym rand = bytes

definition ReadFull :: "rand \<Rightarrow> nat \<Rightarrow> (error + bytes) \<times> rand" where
  "ReadFull r n = (if n \<le> length r then (Inr (take n r), drop n r) else (Inl ErrReader, []))"

subsection \<open>hash.Hash\<close>

text \<open>A hash function with its output size and block size. The Go object is stateful:
  Write appends to what was written since the last Reset, Sum(nil) returns the digest of
  it, Reset empties it. The state is the byte string written so far.\<close>

record hash_fn =
  h_Size :: nat
  h_BlockSize :: nat
  h_Sum :: "bytes \<Rightarrow> bytes"

type_synonym hstate = bytes

subsection \<open>Slices with a capacity, append\<close>

text \<open>A byte slice built by append: its contents and the capacity of its array. When the
  capacity does not suffice, append allocates an array of at least the needed length; the
  run-time's growth policy \<open>g\<close> (old capacity, needed length) may give more. The bytes
  between length and capacity are zero.\<close>

type_synonym slice = "bytes \<times> nat"

definition append_slice :: "(nat \<Rightarrow> nat \<Rightarrow> nat) \<Rightarrow> slice \<Rightarrow> bytes \<Rightarrow> slice" where
  "append_slice g s xs =
     (let k = fst s; c = snd s; n = length k + length xs
      in if n \<le> c then (k @ xs, c) else (k @ xs, max n (g c n)))"

text \<open>\<open>k[:n]\<close>: allowed up to the capacity, a panic beyond it.\<close>

definition reslice :: "slice \<Rightarrow> nat \<Rightarrow> error + bytes" where
  "reslice s n =
     (let k = fst s; c = snd s
      in if n \<le> c then Inr (take n (k @ replicate (c - length k) 0)) else Inl Panic)"

section \<open>The key derivation function\<close>

text \<open>incCounter: the 4-byte big-endian counter plus one, wrapping at \<open>2^32\<close>.\<close>

definition incCounter :: "bytes \<Rightarrow> bytes" where
  "incCounter ctr =
     (let c3 = ctr[3 := ctr ! 3 + 1] in
      if c3 ! 3 \<noteq> 0 then c3
      else let c2 = c3[2 := c3 ! 2 + 1] in
        if c2 ! 2 \<noteq> 0 then c2
        else let c1 = c2[1 := c2 ! 1 + 1] in
          if c1 ! 1 \<noteq> 0 then c1
          else c1[0 := c1 ! 0 + 1])"

text \<open>The loop of concatKDF, \<open>n\<close> iterations to go: the state is the counter, the slice k
  and what the hash has been given since its last Reset.\<close>

fun kdf_loop ::
  "(nat \<Rightarrow> nat \<Rightarrow> nat) \<Rightarrow> hash_fn \<Rightarrow> bytes \<Rightarrow> bytes \<Rightarrow> nat \<Rightarrow> bytes \<times> slice \<times> hstate
     \<Rightarrow> bytes \<times> slice \<times> hstate" where
  "kdf_loop g h z s1 0 st = st"
| "kdf_loop g h z s1 (Suc n) st =
     (let counter = fst st; k = fst (snd st); hs = snd (snd st);
          hs' = hs @ counter @ z @ s1;
          k' = append_slice g k (h_Sum h hs')
      in kdf_loop g h z s1 n (incCounter counter, k', []))"

text \<open>concatKDF, for \<open>0 \<le> kdLen\<close> small enough that \<open>(kdLen + 7) * 8\<close> does not overflow
  an int. \<open>reps\<close> is an integer division (a panic when the hash has block size 0), the loop
  runs for \<open>i = 0 .. reps\<close>, and the result is \<open>k[:kdLen]\<close>. The hash comes in with state
  \<open>hs\<close> and goes back with the state the loop leaves.\<close>

definition concatKDF ::
  "(nat \<Rightarrow> nat \<Rightarrow> nat) \<Rightarrow> hash_fn \<Rightarrow> hstate \<Rightarrow> bytes \<Rightarrow> bytes \<Rightarrow> nat \<Rightarrow> (error + bytes) \<times> hstate" where
  "concatKDF g h hs z s1 kdLen =
     (if h_BlockSize h * 8 = 0 then (Inl Panic, hs)
      else let reps = ((kdLen + 7) * 8) div (h_BlockSize h * 8) in
        if reps > 2 ^ 32 - 1 then (Inl ErrKeyDataTooLong, hs)
        else let st = kdf_loop g h z s1 (Suc reps) ([0, 0, 0, 1], ([], 0), hs)
          in (reslice (fst (snd st)) kdLen, snd (snd st)))"

section \<open>crypto/hmac, crypto/cipher, crypto/subtle\<close>

text \<open>hmac.New(hash, key): a key longer than the block size is hashed first; the key is
  copied into a zero block of the hash's block size.\<close>

definition hmac_key :: "hash_fn \<Rightarrow> bytes \<Rightarrow> bytes" where
  "hmac_key h key =
     (let bs = h_BlockSize h;
          k0 = (if bs < length key then h_Sum h key else key)
      in take bs (k0 @ replicate bs 0))"

definition hmac :: "hash_fn \<Rightarrow> bytes \<Rightarrow> bytes \<Rightarrow> bytes" where
  "hmac h key msg =
     (let kp = hmac_key h key
      in h_Sum h (map (\<lambda>b. b XOR 0x5c) kp @ h_Sum h (map (\<lambda>b. b XOR 0x36) kp @ msg)))"

text \<open>messageTag: the MAC of \<open>msg\<close> followed by \<open>shared\<close>.\<close>

definition messageTag :: "hash_fn \<Rightarrow> bytes \<Rightarrow> bytes \<Rightarrow> bytes \<Rightarrow> bytes" where
  "messageTag h km msg shared = hmac h km (msg @ shared)"

text \<open>subtle.ConstantTimeCompare: 0 for different lengths; otherwise the OR of the XORs of
  all byte pairs is compared with 0.\<close>

definition ConstantTimeCompare :: "bytes \<Rightarrow> bytes \<Rightarrow> nat" where
  "ConstantTimeCompare x y =
     (if length x \<noteq> length y then 0
      else if foldl (\<lambda>v p. v OR (fst p XOR snd p)) (0::byte) (zip x y) = 0 then 1 else 0)"

text \<open>cipher.Block: the block size and the encryption of one block.\<close>

record block =
  b_size :: nat
  b_enc :: "bytes \<Rightarrow> bytes"

text \<open>The counter of CTR mode is incremented as a big-endian number, from its last byte.\<close>

fun inc_le :: "bytes \<Rightarrow> bytes" where
  "inc_le [] = []"
| "inc_le (b # bs) = (if b + 1 = 0 then 0 # inc_le bs else (b + 1) # bs)"

definition inc_be :: "bytes \<Rightarrow> bytes" where
  "inc_be ctr = rev (inc_le (rev ctr))"

fun ctr_blocks :: "(bytes \<Rightarrow> bytes) \<Rightarrow> bytes \<Rightarrow> nat \<Rightarrow> bytes" where
  "ctr_blocks enc ctr 0 = []"
| "ctr_blocks enc ctr (Suc n) = enc ctr @ ctr_blocks enc (inc_be ctr) n"

text \<open>\<open>cipher.NewCTR(c, iv).XORKeyStream(dst, src)\<close> with \<open>len(dst) = len(src)\<close>: src XORed
  with the first \<open>len(src)\<close> bytes of the key stream (as many encrypted counter blocks as
  src has bytes are enough, a block having at least one byte).\<close>

definition XORKeyStream :: "block \<Rightarrow> bytes \<Rightarrow> bytes \<Rightarrow> bytes" where
  "XORKeyStream c iv src =
     map (\<lambda>p. fst p XOR snd p) (zip src (take (length src) (ctr_blocks (b_enc c) iv (length src))))"

section \<open>crypto/elliptic\<close>

text \<open>A curve value is one of the library's named curves or another implementation; the
  package compares curves by identity.\<close>

datatype curve_id = P224 | P256 | P384 | P521 | OtherCurve nat

text \<open>What the package uses of a curve: the bit size and the field prime of its
  parameters, the on-curve test, scalar multiplication (\<open>None\<close> when the x it returns is
  nil), and \<open>elliptic.GenerateKey(curve, rand)\<close>, which reads the reader and returns the
  scalar's bytes and the point. \<open>c_ScalarBaseMult\<close> is the multiplication of the base
  point, by which keys are made. \<open>c_MarshalChecks\<close> tells whether the library checks the
  points given to Marshal: it does from go1.19 on (the version the comments of Decrypt
  link), and does not in go1.17 (the version of the CI workflow).\<close>

record curve =
  c_BitSize :: nat
  c_P :: int
  c_IsOnCurve :: "int \<Rightarrow> int \<Rightarrow> bool"
  c_ScalarMult :: "int \<Rightarrow> int \<Rightarrow> bytes \<Rightarrow> (int \<times> int) option"
  c_ScalarBaseMult :: "bytes \<Rightarrow> int \<times> int"
  c_GenerateKey :: "rand \<Rightarrow> (error + bytes \<times> int \<times> int) \<times> rand"
  c_MarshalChecks :: bool

definition byteLen :: "curve \<Rightarrow> nat" where
  "byteLen cv = (c_BitSize cv + 7) div 8"

text \<open>elliptic.Marshal (go1.19.5, elliptic.go line 120): 4, then x and y in \<open>byteLen\<close>
  bytes each. A library that checks the point panics for a point off the curve, the point
  (0, 0) excepted, which stands for the point at infinity.\<close>

definition Marshal :: "curve \<Rightarrow> int \<Rightarrow> int \<Rightarrow> error + bytes" where
  "Marshal cv x y =
     (if c_MarshalChecks cv \<and> \<not> (x = 0 \<and> y = 0) \<and> \<not> c_IsOnCurve cv x y then Inl Panic
      else case FillBytes x (byteLen cv) of Inl e \<Rightarrow> Inl e
        | Inr xb \<Rightarrow> (case FillBytes y (byteLen cv) of Inl e \<Rightarrow> Inl e
            | Inr yb \<Rightarrow> Inr (4 # xb @ yb)))"

text \<open>elliptic.Unmarshal: nil unless the data has \<open>1 + 2 * byteLen\<close> bytes, starts with 4,
  and holds coordinates below the prime of a point on the curve.\<close>

definition Unmarshal :: "curve \<Rightarrow> bytes \<Rightarrow> (int \<times> int) option" where
  "Unmarshal cv data =
     (if length data \<noteq> 1 + 2 * byteLen cv then None
      else if data ! 0 \<noteq> 4 then None
      else let x = SetBytes (take (byteLen cv) (drop 1 data));
               y = SetBytes (drop (1 + byteLen cv) data)
        in if c_P cv \<le> x \<or> c_P cv \<le> y then None
           else if \<not> c_IsOnCurve cv x y then None
           else Some (x, y))"

section \<open>Parameters and keys\<close>

record ECIESParams =
  Hash :: hash_fn
  Cipher :: "bytes \<Rightarrow> error + block"
  BlockSize :: nat
  KeyLen :: nat

text \<open>The library around the package: the curves, the SHA-2 functions, the AES constructor
  and the growth policy of append.\<close>

record lib =
  curves :: "curve_id \<Rightarrow> curve"
  sha256 :: hash_fn
  sha384 :: hash_fn
  sha512 :: hash_fn
  aes :: "bytes \<Rightarrow> error + block"
  growslice :: "nat \<Rightarrow> nat \<Rightarrow> nat"

text \<open>Modelled from the spec: ParamsFromCurve and the table of default parameters, whose
  file is not among the sources. P-256 has SHA-256 and AES-128 (key length 16), P-384 has
  SHA-384 and AES-192 (24), P-521 has SHA-512 and AES-256 (32), all with block size 16;
  every other curve, P-224 among them, has none.\<close>

definition ParamsFromCurve :: "lib \<Rightarrow> curve_id \<Rightarrow> ECIESParams option" where
  "ParamsFromCurve L c =
     (case c of
        P256 \<Rightarrow> Some \<lparr>Hash = sha256 L, Cipher = aes L, BlockSize = 16, KeyLen = 16\<rparr>
      | P384 \<Rightarrow> Some \<lparr>Hash = sha384 L, Cipher = aes L, BlockSize = 16, KeyLen = 24\<rparr>
      | P521 \<Rightarrow> Some \<lparr>Hash = sha512 L, Cipher = aes L, BlockSize = 16, KeyLen = 32\<rparr>
      | _ \<Rightarrow> None)"

text \<open>The big integers of a key are not nil.\<close>

record PublicKey =
  X :: int
  Y :: int
  Curve :: curve_id
  Params :: "ECIESParams option"

record PrivateKey =
  Pub :: PublicKey
  D :: int

text \<open>The KeyProvider interface: Public() and GenerateShared(pub).\<close>

record KeyProvider =
  kp_Public :: PublicKey
  kp_GenerateShared :: "PublicKey \<Rightarrow> error + bytes"

text \<open>GenerateKey: the scalar and the point from the curve library; the parameters given,
  or the curve's default ones.\<close>

definition GenerateKey ::
  "lib \<Rightarrow> rand \<Rightarrow> curve_id \<Rightarrow> ECIESParams option \<Rightarrow> (error + PrivateKey) \<times> rand" where
  "GenerateKey L r c params =
     (case c_GenerateKey (curves L c) r of
        (Inl e, r') \<Rightarrow> (Inl e, r')
      | (Inr (pb, x, y), r') \<Rightarrow>
          (Inr \<lparr>Pub = \<lparr>X = x, Y = y, Curve = c,
                        Params = (case params of None \<Rightarrow> ParamsFromCurve L c | Some p \<Rightarrow> Some p)\<rparr>,
                D = SetBytes pb\<rparr>, r'))"

definition Public :: "PrivateKey \<Rightarrow> PublicKey" where
  "Public prv = Pub prv"

definition GenerateShared :: "lib \<Rightarrow> PrivateKey \<Rightarrow> PublicKey \<Rightarrow> error + bytes" where
  "GenerateShared L prv pub =
     (if Curve (Pub prv) \<noteq> Curve pub then Inl ErrInvalidCurve
      else case c_ScalarMult (curves L (Curve pub)) (X pub) (Y pub) (Bytes (D prv)) of
          None \<Rightarrow> Inl ErrSharedKeyIsPointAtInfinity
        | Some (x, y) \<Rightarrow> FillBytes x (byteLen (curves L (Curve pub))))"

text \<open>A PrivateKey as a KeyProvider.\<close>

definition provider :: "lib \<Rightarrow> PrivateKey \<Rightarrow> KeyProvider" where
  "provider L prv = \<lparr>kp_Public = Public prv, kp_GenerateShared = GenerateShared L prv\<rparr>"

section \<open>The symmetric layer\<close>

definition generateIV :: "ECIESParams \<Rightarrow> rand \<Rightarrow> (error + bytes) \<times> rand" where
  "generateIV params r = ReadFull r (BlockSize params)"

text \<open>symEncrypt: the IV followed by the message in CTR mode. NewCTR panics when the IV
  has not the cipher's block size.\<close>

definition symEncrypt :: "rand \<Rightarrow> ECIESParams \<Rightarrow> bytes \<Rightarrow> bytes \<Rightarrow> (error + bytes) \<times> rand" where
  "symEncrypt r params key m =
     (case Cipher params key of
        Inl e \<Rightarrow> (Inl e, r)
      | Inr c \<Rightarrow>
          (case generateIV params r of
             (Inl e, r') \<Rightarrow> (Inl e, r')
           | (Inr iv, r') \<Rightarrow>
               if length iv \<noteq> b_size c then (Inl Panic, r')
               else (Inr (iv @ XORKeyStream c iv m), r')))"

text \<open>symDecrypt: \<open>ct[:BlockSize]\<close> is the IV and \<open>make([]byte, len(ct) - BlockSize)\<close> the
  plaintext buffer. When ct is shorter than the block size, the slice expression (beyond
  the capacity) or else make (negative length) panics.\<close>

definition symDecrypt :: "ECIESParams \<Rightarrow> bytes \<Rightarrow> bytes \<Rightarrow> error + bytes" where
  "symDecrypt params key ct =
     (case Cipher params key of
        Inl e \<Rightarrow> Inl e
      | Inr c \<Rightarrow>
          if length ct < BlockSize params then Inl Panic
          else if BlockSize params \<noteq> b_size c then Inl Panic
          else Inr (XORKeyStream c (take (BlockSize params) ct) (drop (BlockSize params) ct)))"

section \<open>Encrypt and Decrypt\<close>

definition resolveParams :: "lib \<Rightarrow> PublicKey \<Rightarrow> ECIESParams option" where
  "resolveParams L pub =
     (case Params pub of Some p \<Rightarrow> Some p | None \<Rightarrow> ParamsFromCurve L (Curve pub))"

text \<open>Encrypt. Its results are named, so the bare return after symEncrypt gives back the
  nil ciphertext with whatever err holds: the error of symEncrypt, or nil when the only
  reason is \<open>len(em) \<le> BlockSize\<close>; that last outcome is \<open>Inr []\<close> here.\<close>

definition Encrypt ::
  "lib \<Rightarrow> rand \<Rightarrow> PublicKey \<Rightarrow> bytes \<Rightarrow> bytes \<Rightarrow> bytes \<Rightarrow> (error + bytes) \<times> rand" where
  "Encrypt L r pub m s1 s2 =
     (case resolveParams L pub of
        None \<Rightarrow> (Inl ErrUnsupportedECIESParameters, r)
      | Some params \<Rightarrow>
     (case GenerateKey L r (Curve pub) (Some params) of
        (Inl e, r1) \<Rightarrow> (Inl e, r1)
      | (Inr R, r1) \<Rightarrow>
     (case GenerateShared L R pub of
        Inl e \<Rightarrow> (Inl e, r1)
      | Inr z \<Rightarrow>
     (case concatKDF (growslice L) (Hash params) [] z s1 (KeyLen params + KeyLen params) of
        (Inl e, hs) \<Rightarrow> (Inl e, r1)
      | (Inr K, hs) \<Rightarrow>
          let Ke = take (KeyLen params) K;
              Km = h_Sum (Hash params) (hs @ drop (KeyLen params) K)
          in
     (case symEncrypt r1 params Ke m of
        (Inl e, r2) \<Rightarrow> (Inl e, r2)
      | (Inr em, r2) \<Rightarrow>
          if length em \<le> BlockSize params then (Inr [], r2)
          else let d = messageTag (Hash params) Km em s2 in
            (case Marshal (curves L (Curve pub)) (X (Pub R)) (Y (Pub R)) of
               Inl e \<Rightarrow> (Inl e, r2)
             | Inr Rb \<Rightarrow> (Inr (Rb @ em @ d), r2)))))))"

text \<open>The switch of Decrypt on the first byte: where the message starts.\<close>

definition mStart_of :: "byte \<Rightarrow> nat \<Rightarrow> nat option" where
  "mStart_of b kLen =
     (if b = 2 \<or> b = 3 then Some (1 + kLen)
      else if b = 4 then Some (1 + 2 * kLen)
      else None)"

definition Decrypt :: "lib \<Rightarrow> KeyProvider \<Rightarrow> bytes \<Rightarrow> bytes \<Rightarrow> bytes \<Rightarrow> error + bytes" where
  "Decrypt L prv c s1 s2 =
     (if length c = 0 then Inl ErrInvalidMessage
      else let pub = kp_Public prv in
     (case resolveParams L pub of
        None \<Rightarrow> Inl ErrUnsupportedECIESParameters
      | Some params \<Rightarrow>
          let hLen = h_Size (Hash params);
              kLen = (c_BitSize (curves L (Curve pub)) + 7) div 8
          in
     (case mStart_of (c ! 0) kLen of
        None \<Rightarrow> Inl ErrInvalidPublicKey
      | Some mStart \<Rightarrow>
          if length c < mStart + hLen + 1 then Inl ErrInvalidMessage
          else let mEnd = length c - hLen in
     (case Unmarshal (curves L (Curve pub)) (take mStart c) of
        None \<Rightarrow> Inl ErrInvalidPublicKey
      | Some (rx, ry) \<Rightarrow>
          if \<not> c_IsOnCurve (curves L (Curve pub)) rx ry then Inl ErrInvalidCurve
          else
     (case kp_GenerateShared prv \<lparr>X = rx, Y = ry, Curve = Curve pub, Params = None\<rparr> of
        Inl e \<Rightarrow> Inl e
      | Inr z \<Rightarrow>
     (case concatKDF (growslice L) (Hash params) [] z s1 (KeyLen params + KeyLen params) of
        (Inl e, hs) \<Rightarrow> Inl e
      | (Inr K, hs) \<Rightarrow>
          let Ke = take (KeyLen params) K;
              Km = h_Sum (Hash params) (hs @ drop (KeyLen params) K);
              d = messageTag (Hash params) Km (take (mEnd - mStart) (drop mStart c)) s2
          in if ConstantTimeCompare (drop mEnd c) d \<noteq> 1 then Inl ErrInvalidMessage
             else symDecrypt params Ke (take (mEnd - mStart) (drop mStart c))))))))"

section \<open>Contracts of the library\<close>

text \<open>A hash returns digests of its size.\<close>

definition hash_ok :: "hash_fn \<Rightarrow> bool" where
  "hash_ok h \<longleftrightarrow> (\<forall>x. length (h_Sum h x) = h_Size h)"

text \<open>A block cipher has a positive block size and encrypts a block to a block.\<close>

definition block_ok :: "block \<Rightarrow> bool" where
  "block_ok c \<longleftrightarrow> 0 < b_size c \<and> (\<forall>x. length x = b_size c \<longrightarrow> length (b_enc c x) = b_size c)"

definition cipher_ok :: "ECIESParams \<Rightarrow> bool" where
  "cipher_ok params \<longleftrightarrow> (\<forall>key c. Cipher params key = Inr c \<longrightarrow> block_ok c)"

text \<open>The Diffie-Hellman property of a curve: multiplying a's public point by b is
  multiplying b's public point by a. And the contract of a curve: multiples of the base
  point are points on the curve with coordinates in the field; key generation returns a
  scalar with its base-point multiple; and the Diffie-Hellman property.\<close>

definition dh_ok :: "curve \<Rightarrow> bool" where
  "dh_ok cv \<longleftrightarrow>
     (\<forall>a b. c_ScalarMult cv (fst (c_ScalarBaseMult cv a)) (snd (c_ScalarBaseMult cv a)) b =
            c_ScalarMult cv (fst (c_ScalarBaseMult cv b)) (snd (c_ScalarBaseMult cv b)) a)"

definition curve_ok :: "curve \<Rightarrow> bool" where
  "curve_ok cv \<longleftrightarrow>
     (\<forall>a. 0 \<le> fst (c_ScalarBaseMult cv a) \<and> fst (c_ScalarBaseMult cv a) < c_P cv \<and>
          0 \<le> snd (c_ScalarBaseMult cv a) \<and> snd (c_ScalarBaseMult cv a) < c_P cv \<and>
          c_IsOnCurve cv (fst (c_ScalarBaseMult cv a)) (snd (c_ScalarBaseMult cv a))) \<and>
     (\<forall>r pb x y r'. c_GenerateKey cv r = (Inr (pb, x, y), r') \<longrightarrow>
          c_ScalarBaseMult cv (Bytes (SetBytes pb)) = (x, y)) \<and>
     dh_ok cv"

text \<open>The invariant of a private key: its point is its scalar times the base point.\<close>

definition key_pair :: "lib \<Rightarrow> PrivateKey \<Rightarrow> bool" where
  "key_pair L prv \<longleftrightarrow>
     c_ScalarBaseMult (curves L (Curve (Pub prv))) (Bytes (D prv)) = (X (Pub prv), Y (Pub prv))"

section \<open>A small library to run the model on\<close>

text \<open>A hash of any sizes, a length-preserving block function, and a curve whose points are
  the numbers below a modulus, with multiplication in place of the group law. They have
  the shapes and the contracts of the real ones, and evaluate fast.\<close>

definition toy_hash :: "nat \<Rightarrow> nat \<Rightarrow> hash_fn" where
  "toy_hash sz bs =
     \<lparr>h_Size = sz, h_BlockSize = bs,
      h_Sum = (\<lambda>x. map (\<lambda>i. foldl (\<lambda>a b. 3 * a + b) (of_nat i) x) [0..<sz])\<rparr>"

definition toy_block :: "nat \<Rightarrow> bytes \<Rightarrow> block" where
  "toy_block n key = \<lparr>b_size = n, b_enc = map (\<lambda>b. b + foldl (+) 1 key)\<rparr>"

definition toy_aes :: "bytes \<Rightarrow> error + block" where
  "toy_aes key =
     (if length key = 16 \<or> length key = 24 \<or> length key = 32 then Inr (toy_block 16 key)
      else Inl ErrCipher)"

definition toy_cipher2 :: "bytes \<Rightarrow> error + block" where
  "toy_cipher2 key = (if length key = 2 then Inr (toy_block 2 key) else Inl ErrCipher)"

definition toy_point :: "nat \<Rightarrow> int \<Rightarrow> int \<times> int" where
  "toy_point bits k = (k mod (2 ^ bits - 1), (k * k) mod (2 ^ bits - 1))"

definition toy_curve :: "nat \<Rightarrow> curve" where
  "toy_curve bits =
     \<lparr>c_BitSize = bits,
      c_P = 2 ^ bits - 1,
      c_IsOnCurve = (\<lambda>x y. 0 \<le> x \<and> x < 2 ^ bits - 1 \<and> y = (x * x) mod (2 ^ bits - 1)),
      c_ScalarMult = (\<lambda>x y k. Some (toy_point bits (x * SetBytes k))),
      c_ScalarBaseMult = (\<lambda>k. toy_point bits (3 * SetBytes k)),
      c_GenerateKey = (\<lambda>r. case ReadFull r ((bits + 7) div 8) of
          (Inl e, r') \<Rightarrow> (Inl e, r')
        | (Inr pb, r') \<Rightarrow> (Inr (pb, toy_point bits (3 * SetBytes pb)), r')),
      c_MarshalChecks = True\<rparr>"

definition toy_lib :: lib where
  "toy_lib =
     \<lparr>curves = (\<lambda>c. case c of P224 \<Rightarrow> toy_curve 224 | P256 \<Rightarrow> toy_curve 256
                   | P384 \<Rightarrow> toy_curve 384 | P521 \<Rightarrow> toy_curve 521 | OtherCurve n \<Rightarrow> toy_curve 8),
      sha256 = toy_hash 32 64, sha384 = toy_hash 48 128, sha512 = toy_hash 64 128,
      aes = toy_aes, growslice = (\<lambda>c n. n)\<rparr>"

definition toy_params :: ECIESParams where
  "toy_params = \<lparr>Hash = toy_hash 2 4, Cipher = toy_cipher2, BlockSize = 2, KeyLen = 2\<rparr>"

text \<open>A key pair on the small curve with the small parameters: the scalar 5, the point of
  \<open>3 * 5\<close>.\<close>

definition toy_prv :: PrivateKey where
  "toy_prv = \<lparr>Pub = \<lparr>X = 15, Y = 225, Curve = OtherCurve 0, Params = Some toy_params\<rparr>, D = 5\<rparr>"

text \<open>A key on P-224, as ImportECDSA makes it: the curve has no default parameters, so
  the key has none.\<close>

definition toy_prv224 :: PrivateKey where
  "toy_prv224 = \<lparr>Pub = \<lparr>X = 15, Y = 225, Curve = P224, Params = None\<rparr>, D = 5\<rparr>"

text \<open>A second key pair on the small curve (scalar 7), and a key pair on P-256 without
  bound parameters.\<close>

definition toy_prv2 :: PrivateKey where
  "toy_prv2 = \<lparr>Pub = \<lparr>X = 21, Y = 186, Curve = OtherCurve 0, Params = Some toy_params\<rparr>, D = 7\<rparr>"

definition toy_prv256 :: PrivateKey where
  "toy_prv256 = \<lparr>Pub = \<lparr>X = 15, Y = 225, Curve = P256, Params = None\<rparr>, D = 5\<rparr>"

section \<open>Key serialization\<close>

text \<open>Object identifiers are lists of numbers; the named curves have theirs.\<close>

type_synonym oid = "nat list"

definition secgNamedCurveP224 :: oid where "secgNamedCurveP224 = [1, 3, 132, 0, 33]"
definition secgNamedCurveP256 :: oid where "secgNamedCurveP256 = [1, 2, 840, 10045, 3, 1, 7]"
definition secgNamedCurveP384 :: oid where "secgNamedCurveP384 = [1, 3, 132, 0, 34]"
definition secgNamedCurveP521 :: oid where "secgNamedCurveP521 = [1, 3, 132, 0, 35]"

text \<open>The method Equal of secgNamedCurve: the same length and the same numbers.\<close>

definition Equal :: "oid \<Rightarrow> oid \<Rightarrow> bool" where
  "Equal curve curve2 \<longleftrightarrow>
     length curve = length curve2 \<and>
     list_all (\<lambda>i. curve ! i = curve2 ! i) [0..<length curve]"

text \<open>namedCurveFromOID: nil for an unknown identifier.\<close>

definition namedCurveFromOID :: "oid \<Rightarrow> curve_id option" where
  "namedCurveFromOID curve =
     (if Equal curve secgNamedCurveP224 then Some P224
      else if Equal curve secgNamedCurveP256 then Some P256
      else if Equal curve secgNamedCurveP384 then Some P384
      else if Equal curve secgNamedCurveP521 then Some P521
      else None)"

text \<open>oidFromNamedCurve: the identifier and true, or nil and false (\<open>None\<close>).\<close>

definition oidFromNamedCurve :: "curve_id \<Rightarrow> oid option" where
  "oidFromNamedCurve curve =
     (case curve of
        P224 \<Rightarrow> Some secgNamedCurveP224
      | P256 \<Rightarrow> Some secgNamedCurveP256
      | P384 \<Rightarrow> Some secgNamedCurveP384
      | P521 \<Rightarrow> Some secgNamedCurveP521
      | OtherCurve n \<Rightarrow> None)"

text \<open>The ASN.1 structures. The algorithm identifiers of ECDH, of the key derivation, of the
  symmetric cipher and of the MAC all have the shape of asnAlgorithmIdentifier.\<close>

record asnAlgorithmIdentifier =
  ai_Algorithm :: oid
  ai_Parameters :: bytes

record asnECIESParameters =
  ep_KDF :: asnAlgorithmIdentifier
  ep_Sym :: asnAlgorithmIdentifier
  ep_MAC :: asnAlgorithmIdentifier

record eccAlgorithmSet =
  as_ECDH :: asnAlgorithmIdentifier
  as_ECIES :: asnECIESParameters

record ecpksSupplements =
  sup_ECDomain :: oid
  sup_ECCAlgorithms :: eccAlgorithmSet

record BitString =
  bit_Bytes :: bytes
  bit_BitLength :: nat

record asnSubjectPublicKeyInfo =
  spki_Algorithm :: oid
  spki_PublicKey :: BitString
  spki_Supplements :: ecpksSupplements

record asnPrivateKey =
  pk_Version :: int
  pk_Private :: bytes
  pk_Curve :: oid
  pk_Public :: BitString

record pem_Block =
  pem_Type :: string
  pem_Bytes :: bytes

definition idEcPublicKeySupplemented :: oid where
  "idEcPublicKeySupplemented = [1, 2, 840, 10045] @ [2] @ [0]"

definition asnECPrivKeyVer1 :: int where
  "asnECPrivKeyVer1 = 1"

text \<open>The zero values of the algorithm structures, which a key without parameters leaves
  in its supplements.\<close>

definition zeroAlgorithm :: asnAlgorithmIdentifier where
  "zeroAlgorithm = \<lparr>ai_Algorithm = [], ai_Parameters = []\<rparr>"

definition zeroAlgorithmSet :: eccAlgorithmSet where
  "zeroAlgorithmSet =
     \<lparr>as_ECDH = zeroAlgorithm,
      as_ECIES = \<lparr>ep_KDF = zeroAlgorithm, ep_Sym = zeroAlgorithm, ep_MAC = zeroAlgorithm\<rparr>\<rparr>"

text \<open>What the serialization calls and the sources do not contain: encoding/asn1 (Marshal
  and Unmarshal at the two structures), encoding/pem (Encode, and Decode, which gives nil
  when it finds no block), the four conversions between ECIESParams and the algorithm
  identifiers, and the zero ECIESParams that \<open>new(ECIESParams)\<close> makes.\<close>

record codec =
  asn1_MarshalPublic :: "asnSubjectPublicKeyInfo \<Rightarrow> error + bytes"
  asn1_UnmarshalPublic :: "bytes \<Rightarrow> error + asnSubjectPublicKeyInfo"
  asn1_MarshalPrivate :: "asnPrivateKey \<Rightarrow> error + bytes"
  asn1_UnmarshalPrivate :: "bytes \<Rightarrow> error + asnPrivateKey"
  pem_Encode :: "pem_Block \<Rightarrow> error + bytes"
  pem_Decode :: "bytes \<Rightarrow> pem_Block option"
  paramsToASNECDH :: "ECIESParams \<Rightarrow> asnAlgorithmIdentifier"
  paramsToASNECIES :: "ECIESParams \<Rightarrow> asnECIESParameters"
  asnECIEStoParams :: "asnECIESParameters \<Rightarrow> ECIESParams \<Rightarrow> ECIESParams"
  asnECDHtoParams :: "asnAlgorithmIdentifier \<Rightarrow> ECIESParams \<Rightarrow> ECIESParams"
  new_ECIESParams :: ECIESParams

definition marshalSubjectPublicKeyInfo ::
  "codec \<Rightarrow> lib \<Rightarrow> PublicKey \<Rightarrow> error + asnSubjectPublicKeyInfo" where
  "marshalSubjectPublicKeyInfo cd L pub =
     (case oidFromNamedCurve (Curve pub) of
        None \<Rightarrow> Inl ErrInvalidPublicKey
      | Some curve \<Rightarrow>
          let algs = (case Params pub of
                        None \<Rightarrow> zeroAlgorithmSet
                      | Some p \<Rightarrow> \<lparr>as_ECDH = paramsToASNECDH cd p, as_ECIES = paramsToASNECIES cd p\<rparr>)
          in (case Marshal (curves L (Curve pub)) (X pub) (Y pub) of
                Inl e \<Rightarrow> Inl e
              | Inr pubkey \<Rightarrow>
                  Inr \<lparr>spki_Algorithm = idEcPublicKeySupplemented,
                       spki_PublicKey = \<lparr>bit_Bytes = pubkey, bit_BitLength = length pubkey * 8\<rparr>,
                       spki_Supplements = \<lparr>sup_ECDomain = curve, sup_ECCAlgorithms = algs\<rparr>\<rparr>))"

definition MarshalPublic :: "codec \<Rightarrow> lib \<Rightarrow> PublicKey \<Rightarrow> error + bytes" where
  "MarshalPublic cd L pub =
     (case marshalSubjectPublicKeyInfo cd L pub of
        Inl e \<Rightarrow> Inl e
      | Inr subj \<Rightarrow> asn1_MarshalPublic cd subj)"

text \<open>UnmarshalPublic. An unknown curve identifier gives the nil curve, on which
  elliptic.Unmarshal panics. The parameters are a new ECIESParams filled from the
  supplements, so the test for nil after them never holds.\<close>

definition UnmarshalPublic :: "codec \<Rightarrow> lib \<Rightarrow> bytes \<Rightarrow> error + PublicKey" where
  "UnmarshalPublic cd L inp =
     (case asn1_UnmarshalPublic cd inp of
        Inl e \<Rightarrow> Inl e
      | Inr subj \<Rightarrow>
          if spki_Algorithm subj \<noteq> idEcPublicKeySupplemented then Inl ErrInvalidPublicKey
          else (case namedCurveFromOID (sup_ECDomain (spki_Supplements subj)) of
                  None \<Rightarrow> Inl Panic
                | Some c \<Rightarrow>
                    (case Unmarshal (curves L c) (bit_Bytes (spki_PublicKey subj)) of
                       None \<Rightarrow> Inl ErrInvalidPublicKey
                     | Some (x, y) \<Rightarrow>
                         Inr \<lparr>X = x, Y = y, Curve = c,
                              Params = Some
                                (asnECDHtoParams cd
                                   (as_ECDH (sup_ECCAlgorithms (spki_Supplements subj)))
                                   (asnECIEStoParams cd
                                      (as_ECIES (sup_ECCAlgorithms (spki_Supplements subj)))
                                      (new_ECIESParams cd)))\<rparr>)))"

definition marshalPrivateKey :: "codec \<Rightarrow> lib \<Rightarrow> PrivateKey \<Rightarrow> error + asnPrivateKey" where
  "marshalPrivateKey cd L prv =
     (case oidFromNamedCurve (Curve (Pub prv)) of
        None \<Rightarrow> Inl ErrInvalidPrivateKey
      | Some curve \<Rightarrow>
          (case MarshalPublic cd L (Pub prv) of
             Inl e \<Rightarrow> Inl e
           | Inr pub \<Rightarrow>
               Inr \<lparr>pk_Version = asnECPrivKeyVer1, pk_Private = Bytes (D prv), pk_Curve = curve,
                    pk_Public = \<lparr>bit_Bytes = pub, bit_BitLength = length pub * 8\<rparr>\<rparr>))"

definition MarshalPrivate :: "codec \<Rightarrow> lib \<Rightarrow> PrivateKey \<Rightarrow> error + bytes" where
  "MarshalPrivate cd L prv =
     (case marshalPrivateKey cd L prv of
        Inl e \<Rightarrow> Inl e
      | Inr ecprv \<Rightarrow> asn1_MarshalPrivate cd ecprv)"

definition UnmarshalPrivate :: "codec \<Rightarrow> lib \<Rightarrow> bytes \<Rightarrow> error + PrivateKey" where
  "UnmarshalPrivate cd L inp =
     (case asn1_UnmarshalPrivate cd inp of
        Inl e \<Rightarrow> Inl e
      | Inr ecprv \<Rightarrow>
          if pk_Version ecprv \<noteq> asnECPrivKeyVer1 then Inl ErrInvalidPrivateKey
          else (case namedCurveFromOID (pk_Curve ecprv) of
                  None \<Rightarrow> Inl ErrInvalidPrivateKey
                | Some privateCurve \<Rightarrow>
                    (case UnmarshalPublic cd L (bit_Bytes (pk_Public ecprv)) of
                       Inl e \<Rightarrow> Inl e
                     | Inr pub \<Rightarrow> Inr \<lparr>Pub = pub, D = SetBytes (pk_Private ecprv)\<rparr>)))"

definition ExportPublicPEM :: "codec \<Rightarrow> lib \<Rightarrow> PublicKey \<Rightarrow> error + bytes" where
  "ExportPublicPEM cd L pub =
     (case MarshalPublic cd L pub of
        Inl e \<Rightarrow> Inl e
      | Inr der \<Rightarrow> pem_Encode cd \<lparr>pem_Type = ''ELLIPTIC CURVE PUBLIC KEY'', pem_Bytes = der\<rparr>)"

definition ExportPrivatePEM :: "codec \<Rightarrow> lib \<Rightarrow> PrivateKey \<Rightarrow> error + bytes" where
  "ExportPrivatePEM cd L prv =
     (case MarshalPrivate cd L prv of
        Inl e \<Rightarrow> Inl e
      | Inr der \<Rightarrow> pem_Encode cd \<lparr>pem_Type = ''ELLIPTIC CURVE PRIVATE KEY'', pem_Bytes = der\<rparr>)"

definition ImportPublicPEM :: "codec \<Rightarrow> lib \<Rightarrow> bytes \<Rightarrow> error + PublicKey" where
  "ImportPublicPEM cd L inp =
     (case pem_Decode cd inp of
        None \<Rightarrow> Inl ErrInvalidPublicKey
      | Some p \<Rightarrow>
          if pem_Type p \<noteq> ''ELLIPTIC CURVE PUBLIC KEY'' then Inl ErrInvalidPublicKey
          else UnmarshalPublic cd L (pem_Bytes p))"

definition ImportPrivatePEM :: "codec \<Rightarrow> lib \<Rightarrow> bytes \<Rightarrow> error + PrivateKey" where
  "ImportPrivatePEM cd L inp =
     (case pem_Decode cd inp of
        None \<Rightarrow> Inl ErrInvalidPrivateKey
      | Some p \<Rightarrow>
          if pem_Type p \<noteq> ''ELLIPTIC CURVE PRIVATE KEY'' then Inl ErrInvalidPrivateKey
          else UnmarshalPrivate cd L (pem_Bytes p))"

text \<open>The contract of the codecs: what Marshal wrote, Unmarshal reads back, and what Encode
  wrote, Decode finds.\<close>

definition codec_ok :: "codec \<Rightarrow> bool" where
  "codec_ok cd \<longleftrightarrow>
     (\<forall>subj der. asn1_MarshalPublic cd subj = Inr der \<longrightarrow> asn1_UnmarshalPublic cd der = Inr subj) \<and>
     (\<forall>k der. asn1_MarshalPrivate cd k = Inr der \<longrightarrow> asn1_UnmarshalPrivate cd der = Inr k) \<and>
     (\<forall>b out. pem_Encode cd b = Inr out \<longrightarrow> pem_Decode cd out = Some b)"

text \<open>The encoders return an encoding for every structure.\<close>

definition codec_encodes :: "codec \<Rightarrow> bool" where
  "codec_encodes cd \<longleftrightarrow>
     (\<forall>subj. \<exists>der. asn1_MarshalPublic cd subj = Inr der) \<and>
     (\<forall>k. \<exists>der. asn1_MarshalPrivate cd k = Inr der) \<and>
     (\<forall>b. \<exists>out. pem_Encode cd b = Inr out)"

text \<open>The invariant of a public key: its point is on its curve, with coordinates in the
  field.\<close>

definition valid_point :: "lib \<Rightarrow> PublicKey \<Rightarrow> bool" where
  "valid_point L pub \<longleftrightarrow>
     0 \<le> X pub \<and> X pub < c_P (curves L (Curve pub)) \<and>
     0 \<le> Y pub \<and> Y pub < c_P (curves L (Curve pub)) \<and>
     c_IsOnCurve (curves L (Curve pub)) (X pub) (Y pub)"

text \<open>A codec to run the serialization on. It writes a number as that many bytes 1 and a
  byte 0, a byte string after its length, a list of numbers after its length, and a
  structure as its fields one after the other; it reads them back in the same order, and
  leaves what follows, as asn1.Unmarshal does.\<close>

definition put_nat :: "nat \<Rightarrow> bytes" where
  "put_nat n = replicate n 1 @ [0]"

fun get_nat :: "bytes \<Rightarrow> (nat \<times> bytes) option" where
  "get_nat [] = None"
| "get_nat (b # bs) =
     (if b = 0 then Some (0, bs)
      else map_option (\<lambda>p. (Suc (fst p), snd p)) (get_nat bs))"

definition put_bytes :: "bytes \<Rightarrow> bytes" where
  "put_bytes bs = put_nat (length bs) @ bs"

definition get_bytes :: "bytes \<Rightarrow> (bytes \<times> bytes) option" where
  "get_bytes bs =
     (case get_nat bs of
        None \<Rightarrow> None
      | Some (n, r) \<Rightarrow> if n \<le> length r then Some (take n r, drop n r) else None)"

definition put_nats :: "nat list \<Rightarrow> bytes" where
  "put_nats xs = put_nat (length xs) @ concat (map put_nat xs)"

fun get_nats_n :: "nat \<Rightarrow> bytes \<Rightarrow> (nat list \<times> bytes) option" where
  "get_nats_n 0 bs = Some ([], bs)"
| "get_nats_n (Suc n) bs =
     (case get_nat bs of
        None \<Rightarrow> None
      | Some (x, r) \<Rightarrow> map_option (\<lambda>p. (x # fst p, snd p)) (get_nats_n n r))"

definition get_nats :: "bytes \<Rightarrow> (nat list \<times> bytes) option" where
  "get_nats bs = (case get_nat bs of None \<Rightarrow> None | Some (n, r) \<Rightarrow> get_nats_n n r)"

definition put_int :: "int \<Rightarrow> bytes" where
  "put_int i = put_nat (if i < 0 then 1 else 0) @ put_nat (nat \<bar>i\<bar>)"

definition get_int :: "bytes \<Rightarrow> (int \<times> bytes) option" where
  "get_int bs =
     (case get_nat bs of
        None \<Rightarrow> None
      | Some (s, r) \<Rightarrow>
          (case get_nat r of
             None \<Rightarrow> None
           | Some (n, r') \<Rightarrow> Some (if s = 0 then int n else - int n, r')))"

definition put_string :: "string \<Rightarrow> bytes" where
  "put_string s = put_nats (map of_char s)"

definition get_string :: "bytes \<Rightarrow> (string \<times> bytes) option" where
  "get_string bs = map_option (\<lambda>p. (map char_of (fst p), snd p)) (get_nats bs)"

definition put_alg :: "asnAlgorithmIdentifier \<Rightarrow> bytes" where
  "put_alg a = put_nats (ai_Algorithm a) @ put_bytes (ai_Parameters a)"

definition get_alg :: "bytes \<Rightarrow> (asnAlgorithmIdentifier \<times> bytes) option" where
  "get_alg bs =
     Option.bind (get_nats bs) (\<lambda>(a, r1).
     Option.bind (get_bytes r1) (\<lambda>(p, r2).
       Some (\<lparr>ai_Algorithm = a, ai_Parameters = p\<rparr>, r2)))"

definition put_ecies :: "asnECIESParameters \<Rightarrow> bytes" where
  "put_ecies e = put_alg (ep_KDF e) @ put_alg (ep_Sym e) @ put_alg (ep_MAC e)"

definition get_ecies :: "bytes \<Rightarrow> (asnECIESParameters \<times> bytes) option" where
  "get_ecies bs =
     Option.bind (get_alg bs) (\<lambda>(k, r1).
     Option.bind (get_alg r1) (\<lambda>(s, r2).
     Option.bind (get_alg r2) (\<lambda>(m, r3).
       Some (\<lparr>ep_KDF = k, ep_Sym = s, ep_MAC = m\<rparr>, r3))))"

definition put_algset :: "eccAlgorithmSet \<Rightarrow> bytes" where
  "put_algset a = put_alg (as_ECDH a) @ put_ecies (as_ECIES a)"

definition get_algset :: "bytes \<Rightarrow> (eccAlgorithmSet \<times> bytes) option" where
  "get_algset bs =
     Option.bind (get_alg bs) (\<lambda>(d, r1).
     Option.bind (get_ecies r1) (\<lambda>(e, r2).
       Some (\<lparr>as_ECDH = d, as_ECIES = e\<rparr>, r2)))"

definition put_bits :: "BitString \<Rightarrow> bytes" where
  "put_bits b = put_bytes (bit_Bytes b) @ put_nat (bit_BitLength b)"

definition get_bits :: "bytes \<Rightarrow> (BitString \<times> bytes) option" where
  "get_bits bs =
     Option.bind (get_bytes bs) (\<lambda>(b, r1).
     Option.bind (get_nat r1) (\<lambda>(n, r2).
       Some (\<lparr>bit_Bytes = b, bit_BitLength = n\<rparr>, r2)))"

definition put_spki :: "asnSubjectPublicKeyInfo \<Rightarrow> bytes" where
  "put_spki s =
     put_nats (spki_Algorithm s) @ put_bits (spki_PublicKey s) @
     put_nats (sup_ECDomain (spki_Supplements s)) @
     put_algset (sup_ECCAlgorithms (spki_Supplements s))"

definition get_spki :: "bytes \<Rightarrow> (asnSubjectPublicKeyInfo \<times> bytes) option" where
  "get_spki bs =
     Option.bind (get_nats bs) (\<lambda>(a, r1).
     Option.bind (get_bits r1) (\<lambda>(k, r2).
     Option.bind (get_nats r2) (\<lambda>(d, r3).
     Option.bind (get_algset r3) (\<lambda>(g, r4).
       Some (\<lparr>spki_Algorithm = a, spki_PublicKey = k,
              spki_Supplements = \<lparr>sup_ECDomain = d, sup_ECCAlgorithms = g\<rparr>\<rparr>, r4)))))"

definition put_prv :: "asnPrivateKey \<Rightarrow> bytes" where
  "put_prv k =
     put_int (pk_Version k) @ put_bytes (pk_Private k) @ put_nats (pk_Curve k) @
     put_bits (pk_Public k)"

definition get_prv :: "bytes \<Rightarrow> (asnPrivateKey \<times> bytes) option" where
  "get_prv bs =
     Option.bind (get_int bs) (\<lambda>(v, r1).
     Option.bind (get_bytes r1) (\<lambda>(p, r2).
     Option.bind (get_nats r2) (\<lambda>(c, r3).
     Option.bind (get_bits r3) (\<lambda>(b, r4).
       Some (\<lparr>pk_Version = v, pk_Private = p, pk_Curve = c, pk_Public = b\<rparr>, r4)))))"

definition put_pem :: "pem_Block \<Rightarrow> bytes" where
  "put_pem b = put_string (pem_Type b) @ put_bytes (pem_Bytes b)"

definition get_pem :: "bytes \<Rightarrow> (pem_Block \<times> bytes) option" where
  "get_pem bs =
     Option.bind (get_string bs) (\<lambda>(t, r1).
     Option.bind (get_bytes r1) (\<lambda>(b, r2).
       Some (\<lparr>pem_Type = t, pem_Bytes = b\<rparr>, r2)))"

definition toy_codec :: codec where
  "toy_codec =
     \<lparr>asn1_MarshalPublic = (\<lambda>subj. Inr (put_spki subj)),
      asn1_UnmarshalPublic = (\<lambda>der. case get_spki der of
          None \<Rightarrow> Inl ErrCodec | Some (subj, rest) \<Rightarrow> Inr subj),
      asn1_MarshalPrivate = (\<lambda>k. Inr (put_prv k)),
      asn1_UnmarshalPrivate = (\<lambda>der. case get_prv der of
          None \<Rightarrow> Inl ErrCodec | Some (k, rest) \<Rightarrow> Inr k),
      pem_Encode = (\<lambda>b. Inr (put_pem b)),
      pem_Decode = (\<lambda>out. map_option fst (get_pem out)),
      paramsToASNECDH = (\<lambda>p. zeroAlgorithm),
      paramsToASNECIES = (\<lambda>p. \<lparr>ep_KDF = zeroAlgorithm, ep_Sym = zeroAlgorithm, ep_MAC = zeroAlgorithm\<rparr>),
      asnECIEStoParams = (\<lambda>a p. p),
      asnECDHtoParams = (\<lambda>a p. p),
      new_ECIESParams = toy_params\<rparr>"

section \<open>Facts about the library functions\<close>

lemma SetBytes_append: "SetBytes (xs @ [b]) = SetBytes xs * 256 + uint b"
  by (simp add: SetBytes_def)

lemma SetBytes_Nil: "SetBytes [] = 0"
  by (simp add: SetBytes_def)

lemma foldl_be_zero: "foldl (\<lambda>a b. a * 256 + uint b) a (replicate k (0::byte) @ bs) =
   foldl (\<lambda>a b. a * 256 + uint b) (a * 256 ^ k) bs"
  by (induction k arbitrary: a) (simp_all add: algebra_simps)

lemma SetBytes_zeros: "SetBytes (replicate k 0 @ bs) = SetBytes bs"
  using foldl_be_zero [of 0 k bs] by (simp add: SetBytes_def)

lemma SetBytes_be_bytes: "SetBytes (be_bytes n) = int n"
proof (induction n rule: be_bytes.induct)
  case (1 n)
  show ?case
  proof (cases "n = 0")
    case True
    then show ?thesis by (simp add: be_bytes.simps SetBytes_Nil)
  next
    case False
    have "uint (of_nat (n mod 256) :: byte) = int (n mod 256)"
      by (simp add: uint_word_of_int take_bit_eq_mod unsigned_of_nat of_nat_mod)
    with False 1 show ?thesis
      by (subst be_bytes.simps) (simp add: SetBytes_append zdiv_int zmod_int)
  qed
qed

lemma SetBytes_Bytes: "SetBytes (Bytes x) = \<bar>x\<bar>"
  by (simp add: Bytes_def SetBytes_be_bytes)

lemma FillBytes_length: "FillBytes x n = Inr bs \<Longrightarrow> length bs = n"
  by (auto simp: FillBytes_def split: if_splits)

lemma SetBytes_FillBytes: "FillBytes x n = Inr bs \<Longrightarrow> SetBytes bs = \<bar>x\<bar>"
  by (auto simp: FillBytes_def SetBytes_zeros SetBytes_Bytes split: if_splits)

lemma xor_byte_eq_0: "(a XOR b = (0::byte)) = (a = b)"
proof
  assume "a XOR b = 0"
  then have "a XOR (a XOR b) = a" by simp
  then show "a = b" by (simp flip: xor.assoc)
qed simp

lemma ConstantTimeCompare_fold:
  "length x = length y \<Longrightarrow>
   (foldl (\<lambda>v p. v OR (fst p XOR snd p)) (v0::byte) (zip x y) = 0) = (v0 = 0 \<and> x = y)"
proof (induction x arbitrary: y v0)
  case Nil
  then show ?case by simp
next
  case (Cons a x)
  then obtain b y' where y: "y = b # y'" by (cases y) auto
  have "(v0 OR (a XOR b) = 0) = (v0 = 0 \<and> a = b)"
    by (auto simp: or_eq_0_iff xor_byte_eq_0)
  with Cons y show ?case by auto
qed

lemma ConstantTimeCompare_eq: "(ConstantTimeCompare x y = 1) = (x = y)"
  by (auto simp: ConstantTimeCompare_def ConstantTimeCompare_fold)


lemma XOR_twice: "length ks = length m \<Longrightarrow>
   map (\<lambda>p. fst p XOR snd p) (zip (map (\<lambda>p. fst p XOR snd p) (zip m ks)) ks) = (m::bytes)"
proof (induction m arbitrary: ks)
  case Nil
  then show ?case by simp
next
  case (Cons a m)
  then obtain k ks' where "ks = k # ks'" by (cases ks) auto
  with Cons show ?case by (simp add: xor.assoc)
qed

lemma inc_le_length: "length (inc_le xs) = length xs"
  by (induction xs) auto

lemma inc_be_length: "length (inc_be xs) = length xs"
  by (simp add: inc_be_def inc_le_length)

lemma ctr_blocks_length:
  "block_ok c \<Longrightarrow> length iv = b_size c \<Longrightarrow> length (ctr_blocks (b_enc c) iv n) = n * b_size c"
  by (induction n arbitrary: iv) (simp_all add: block_ok_def inc_be_length)

lemma XORKeyStream_length:
  assumes "block_ok c" "length iv = b_size c"
  shows "length (XORKeyStream c iv src) = length src"
proof -
  have "0 < b_size c" using assms by (simp add: block_ok_def)
  then have "length src \<le> length src * b_size c" by simp
  then show ?thesis using assms by (simp add: XORKeyStream_def ctr_blocks_length)
qed

lemma XORKeyStream_twice:
  assumes "block_ok c" "length iv = b_size c"
  shows "XORKeyStream c iv (XORKeyStream c iv m) = m"
proof -
  let ?ks = "take (length m) (ctr_blocks (b_enc c) iv (length m))"
  have "0 < b_size c" using assms by (simp add: block_ok_def)
  then have "length m \<le> length m * b_size c" by simp
  then have len: "length ?ks = length m" using assms by (simp add: ctr_blocks_length)
  have "XORKeyStream c iv m = map (\<lambda>p. fst p XOR snd p) (zip m ?ks)"
    by (simp add: XORKeyStream_def)
  moreover have "length (XORKeyStream c iv m) = length m"
    using assms by (rule XORKeyStream_length)
  ultimately have "XORKeyStream c iv (XORKeyStream c iv m) =
      map (\<lambda>p. fst p XOR snd p) (zip (map (\<lambda>p. fst p XOR snd p) (zip m ?ks)) ?ks)"
    by (simp add: XORKeyStream_def)
  then show ?thesis using XOR_twice [OF len] by simp
qed

lemma XORKeyStream_Nil: "XORKeyStream c iv [] = []"
  by (simp add: XORKeyStream_def)

lemma append_slice_fst: "fst (append_slice g s xs) = fst s @ xs"
  by (simp add: append_slice_def Let_def)

lemma reslice_length: "reslice s n = Inr k \<Longrightarrow> length (fst s) \<le> snd s \<Longrightarrow> length k = n"
  by (auto simp: reslice_def Let_def split: if_splits)

lemma append_slice_cap: "length (fst s) \<le> snd s \<Longrightarrow>
   length (fst (append_slice g s xs)) \<le> snd (append_slice g s xs)"
  by (simp add: append_slice_def Let_def)

lemma kdf_loop_cap:
  "length (fst (fst (snd st))) \<le> snd (fst (snd st)) \<Longrightarrow>
   length (fst (fst (snd (kdf_loop g h z s1 n st)))) \<le> snd (fst (snd (kdf_loop g h z s1 n st)))"
  by (induction n arbitrary: st) (simp_all add: Let_def append_slice_cap)

lemma concatKDF_length: "concatKDF g h hs z s1 n = (Inr k, hs') \<Longrightarrow> length k = n"
proof -
  assume a: "concatKDF g h hs z s1 n = (Inr k, hs')"
  let ?st = "kdf_loop g h z s1 (Suc (((n + 7) * 8) div (h_BlockSize h * 8))) ([0, 0, 0, 1], ([], 0), hs)"
  from a have r: "reslice (fst (snd ?st)) n = Inr k"
    by (auto simp: concatKDF_def Let_def split: if_splits simp del: kdf_loop.simps)
  have "length (fst (fst (snd ?st))) \<le> snd (fst (snd ?st))"
    by (rule kdf_loop_cap) simp
  with r show ?thesis by (rule reslice_length)
qed

section \<open>Evaluation rules\<close>

text \<open>Rules that unfold the recursive functions at numerals, for running the model on
  concrete inputs.\<close>

lemma kdf_loop_numeral:
  "kdf_loop g h z s1 (numeral k) st =
     kdf_loop g h z s1 (pred_numeral k)
       (incCounter (fst st),
        append_slice g (fst (snd st)) (h_Sum h (snd (snd st) @ fst st @ z @ s1)), [])"
  by (simp add: numeral_eq_Suc Let_def)

lemma ctr_blocks_numeral:
  "ctr_blocks enc ctr (numeral k) = enc ctr @ ctr_blocks enc (inc_be ctr) (pred_numeral k)"
  by (simp add: numeral_eq_Suc)

lemma replicate_numeral: "replicate (numeral k) x = x # replicate (pred_numeral k) x"
  by (simp add: numeral_eq_Suc)

lemma be_bytes_0: "be_bytes 0 = []"
  by (simp add: be_bytes.simps)

lemma be_bytes_1: "be_bytes (Suc 0) = [1]"
  by (simp add: be_bytes.simps)

lemmas be_bytes_numeral = be_bytes.simps [of "numeral k"] for k

lemmas upt_to_numeral = upt_rec [of _ "numeral n"] for n

lemma incCounter_4:
  "incCounter [a, b, c, d] =
     (if d + 1 \<noteq> 0 then [a, b, c, d + 1]
      else if c + 1 \<noteq> 0 then [a, b, c + 1, 0]
      else if b + 1 \<noteq> 0 then [a, b + 1, 0, 0]
      else [a + 1, 0, 0, 0])"
  by (simp add: incCounter_def Let_def numeral_3_eq_3 numeral_2_eq_2)

lemmas model_defs = Encrypt_def Decrypt_def resolveParams_def mStart_of_def GenerateKey_def
  GenerateShared_def provider_def Public_def symEncrypt_def symDecrypt_def generateIV_def
  ReadFull_def Marshal_def Unmarshal_def byteLen_def FillBytes_def Bytes_def SetBytes_def
  messageTag_def hmac_def hmac_key_def ConstantTimeCompare_def XORKeyStream_def inc_be_def
  concatKDF_def reslice_def append_slice_def ParamsFromCurve_def

lemmas toy_defs = toy_lib_def toy_params_def toy_prv_def toy_curve_def toy_point_def
  toy_hash_def toy_block_def toy_aes_def toy_cipher2_def

lemmas eval_simps = kdf_loop_numeral ctr_blocks_numeral incCounter_4 be_bytes_0 be_bytes_1 be_bytes_numeral
  Let_def upt_to_numeral replicate_numeral


lemma symEncrypt_Nil:
  "symEncrypt r params key [] = (Inr em, r') \<Longrightarrow> length em = BlockSize params"
  by (auto simp: symEncrypt_def generateIV_def ReadFull_def XORKeyStream_Nil
      split: sum.splits prod.splits if_splits)

lemma foldl_be_nonneg: "0 \<le> a \<Longrightarrow> 0 \<le> foldl (\<lambda>a b. a * 256 + uint b) a (bs::bytes)"
  by (induction bs arbitrary: a) simp_all

lemma SetBytes_nonneg: "0 \<le> SetBytes bs"
  by (simp add: SetBytes_def foldl_be_nonneg)

lemma Marshal_InrD:
  assumes "Marshal cv x y = Inr Rb"
  shows "\<exists>xb yb. Rb = 4 # xb @ yb \<and> length xb = byteLen cv \<and> length yb = byteLen cv \<and>
           SetBytes xb = \<bar>x\<bar> \<and> SetBytes yb = \<bar>y\<bar>"
  using assms
  by (auto simp: Marshal_def split: if_splits sum.splits
      dest: FillBytes_length SetBytes_FillBytes)

lemma Marshal_length: "Marshal cv x y = Inr Rb \<Longrightarrow> length Rb = 1 + 2 * byteLen cv"
  by (auto dest: Marshal_InrD)

lemma Unmarshal_Marshal:
  assumes "Marshal cv x y = Inr Rb" "0 \<le> x" "x < c_P cv" "0 \<le> y" "y < c_P cv"
    and on: "c_IsOnCurve cv x y"
  shows "Unmarshal cv Rb = Some (x, y)"
proof -
  from Marshal_InrD [OF assms(1)] obtain xb yb where
    rb: "Rb = 4 # xb @ yb" and lx: "length xb = byteLen cv" and ly: "length yb = byteLen cv"
    and sx: "SetBytes xb = \<bar>x\<bar>" and sy: "SetBytes yb = \<bar>y\<bar>"
    by blast
  from assms sx sy have "SetBytes xb = x" "SetBytes yb = y" by simp_all
  with rb lx ly on assms show ?thesis
    by (simp add: Unmarshal_def Let_def)
qed

lemma Unmarshal_on_curve: "Unmarshal cv data = Some (x, y) \<Longrightarrow> c_IsOnCurve cv x y"
  by (auto simp: Unmarshal_def Let_def split: if_splits)

lemma hmac_length: "hash_ok h \<Longrightarrow> length (hmac h key msg) = h_Size h"
  by (simp add: hmac_def hash_ok_def Let_def)

lemma messageTag_length: "hash_ok h \<Longrightarrow> length (messageTag h km msg s) = h_Size h"
  by (simp add: messageTag_def hmac_length)

text \<open>When the library calls succeed: a coordinate below \<open>2 ^ BitSize\<close> fits its
  buffer, and concatKDF returns when its loop produces enough bytes.\<close>

lemma be_bytes_length: "n < 256 ^ k \<Longrightarrow> length (be_bytes n) \<le> k"
proof (induction k arbitrary: n)
  case 0
  then show ?case by (simp add: be_bytes.simps)
next
  case (Suc k)
  show ?case
  proof (cases "n = 0")
    case True
    then show ?thesis by (simp add: be_bytes.simps)
  next
    case False
    from Suc.prems have "n div 256 < 256 ^ k"
      by (simp add: less_mult_imp_div_less mult.commute)
    then have "length (be_bytes (n div 256)) \<le> k" by (rule Suc.IH)
    with False show ?thesis by (subst be_bytes.simps) simp
  qed
qed

lemma Bytes_length:
  assumes "\<bar>x\<bar> < 2 ^ bits"
  shows "length (Bytes x) \<le> (bits + 7) div 8"
proof -
  have "bits \<le> 8 * ((bits + 7) div 8)" by simp
  then have "(2::int) ^ bits \<le> 2 ^ (8 * ((bits + 7) div 8))"
    by (intro power_increasing) simp_all
  also have "\<dots> = 256 ^ ((bits + 7) div 8)"
    by (simp add: power_mult)
  finally have "\<bar>x\<bar> < 256 ^ ((bits + 7) div 8)"
    using assms by simp
  then have "nat \<bar>x\<bar> < 256 ^ ((bits + 7) div 8)"
    by (simp add: nat_less_iff)
  then show ?thesis unfolding Bytes_def by (rule be_bytes_length)
qed

lemma FillBytes_fits:
  "\<bar>x\<bar> < 2 ^ c_BitSize cv \<Longrightarrow> \<exists>bs. FillBytes x (byteLen cv) = Inr bs"
  using Bytes_length [of x "c_BitSize cv"] by (simp add: FillBytes_def byteLen_def)

lemma kdf_loop_length:
  "hash_ok h \<Longrightarrow>
   length (fst (fst (snd (kdf_loop g h z s1 n st)))) = length (fst (fst (snd st))) + n * h_Size h"
  by (induction n arbitrary: st) (simp_all add: Let_def append_slice_fst hash_ok_def)

lemma kdf_loop_hstate_keep:
  "snd (snd st) = [] \<Longrightarrow> snd (snd (kdf_loop g h z s1 n st)) = []"
  by (induction n arbitrary: st) (simp_all add: Let_def)

lemma kdf_loop_hstate: "snd (snd (kdf_loop g h z s1 (Suc n) st)) = []"
  by (simp add: Let_def kdf_loop_hstate_keep)

lemma concatKDF_succeeds:
  assumes "hash_ok h" "0 < h_BlockSize h"
    and "((n + 7) * 8) div (h_BlockSize h * 8) \<le> 2 ^ 32 - 1"
    and "n \<le> Suc (((n + 7) * 8) div (h_BlockSize h * 8)) * h_Size h"
  shows "\<exists>K. concatKDF g h hs z s1 n = (Inr K, []) \<and> length K = n"
proof -
  let ?st = "kdf_loop g h z s1 (Suc (((n + 7) * 8) div (h_BlockSize h * 8))) ([0, 0, 0, 1], ([], 0), hs)"
  have l: "length (fst (fst (snd ?st))) = Suc (((n + 7) * 8) div (h_BlockSize h * 8)) * h_Size h"
    using kdf_loop_length [OF assms(1), of g z s1 _ "([0, 0, 0, 1], ([], 0), hs)"]
    by (simp del: kdf_loop.simps)
  have c: "length (fst (fst (snd ?st))) \<le> snd (fst (snd ?st))"
    by (rule kdf_loop_cap) simp
  from l c assms(4) have "n \<le> snd (fst (snd ?st))" by simp
  then obtain K where r: "reslice (fst (snd ?st)) n = Inr K"
    by (simp add: reslice_def Let_def)
  have e: "concatKDF g h hs z s1 n = (Inr K, [])"
    using assms(2,3) r kdf_loop_hstate [of g h z s1 _ "([0, 0, 0, 1], ([], 0), hs)"]
    by (simp add: concatKDF_def Let_def del: kdf_loop.simps)
  with concatKDF_length [OF e] show ?thesis by simp
qed

section \<open>The stages of Encrypt and Decrypt\<close>

lemma GenerateShared_InrD:
  assumes "GenerateShared L prv pub = Inr z"
  shows "length z = byteLen (curves L (Curve pub)) \<and>
     (\<exists>x y. c_ScalarMult (curves L (Curve pub)) (X pub) (Y pub) (Bytes (D prv)) = Some (x, y) \<and>
        z = replicate (byteLen (curves L (Curve pub)) - length (Bytes x)) 0 @ Bytes x)"
  using assms
  by (auto simp: GenerateShared_def FillBytes_def split: if_splits option.splits)

lemma ecdh_symmetric:
  assumes ok: "dh_ok cv"
    and a: "c_ScalarBaseMult cv sa = (xa, ya)"
    and b: "c_ScalarBaseMult cv sb = (xb, yb)"
  shows "c_ScalarMult cv xb yb sa = c_ScalarMult cv xa ya sb"
proof -
  from ok have "c_ScalarMult cv (fst (c_ScalarBaseMult cv sb)) (snd (c_ScalarBaseMult cv sb)) sa =
      c_ScalarMult cv (fst (c_ScalarBaseMult cv sa)) (snd (c_ScalarBaseMult cv sa)) sb"
    unfolding dh_ok_def by blast
  with a b show ?thesis by simp
qed

lemma ConstantTimeCompare_Suc: "(ConstantTimeCompare x y = Suc 0) = (x = y)"
  using ConstantTimeCompare_eq [of x y] by simp

lemma Decrypt_stages:
  assumes "c \<noteq> []"
    and "resolveParams L (kp_Public prv) = Some ps"
    and "mStart_of (c ! 0) ((c_BitSize (curves L (Curve (kp_Public prv))) + 7) div 8) = Some ms"
    and "ms + h_Size (Hash ps) + 1 \<le> length c"
    and "Unmarshal (curves L (Curve (kp_Public prv))) (take ms c) = Some (rx, ry)"
    and "kp_GenerateShared prv \<lparr>X = rx, Y = ry, Curve = Curve (kp_Public prv), Params = None\<rparr> = Inr z"
    and "concatKDF (growslice L) (Hash ps) [] z s1 (KeyLen ps + KeyLen ps) = (Inr K, hs)"
  shows "Decrypt L prv c s1 s2 =
     (if drop (length c - h_Size (Hash ps)) c =
         messageTag (Hash ps) (h_Sum (Hash ps) (hs @ drop (KeyLen ps) K))
           (take (length c - h_Size (Hash ps) - ms) (drop ms c)) s2
      then symDecrypt ps (take (KeyLen ps) K) (take (length c - h_Size (Hash ps) - ms) (drop ms c))
      else Inl ErrInvalidMessage)"
proof -
  have on: "c_IsOnCurve (curves L (Curve (kp_Public prv))) rx ry"
    using assms(5) by (rule Unmarshal_on_curve)
  have len: "\<not> length c < ms + h_Size (Hash ps) + 1" "length c \<noteq> 0"
    using assms(1,4) by simp_all
  show ?thesis
    unfolding Decrypt_def Let_def
    using assms(1,4) on
    by (simp add: assms(2,3,5,6,7) ConstantTimeCompare_Suc)
qed

lemma Decrypt_InrD:
  assumes "Decrypt L prv c s1 s2 = Inr m" "resolveParams L (kp_Public prv) = Some ps"
  shows "\<exists>ms rx ry z K hs.
    c \<noteq> [] \<and>
    mStart_of (c ! 0) ((c_BitSize (curves L (Curve (kp_Public prv))) + 7) div 8) = Some ms \<and>
    ms + h_Size (Hash ps) + 1 \<le> length c \<and>
    Unmarshal (curves L (Curve (kp_Public prv))) (take ms c) = Some (rx, ry) \<and>
    kp_GenerateShared prv \<lparr>X = rx, Y = ry, Curve = Curve (kp_Public prv), Params = None\<rparr> = Inr z \<and>
    concatKDF (growslice L) (Hash ps) [] z s1 (KeyLen ps + KeyLen ps) = (Inr K, hs) \<and>
    drop (length c - h_Size (Hash ps)) c =
         messageTag (Hash ps) (h_Sum (Hash ps) (hs @ drop (KeyLen ps) K))
           (take (length c - h_Size (Hash ps) - ms) (drop ms c)) s2"
  using assms
  unfolding Decrypt_def Let_def
  by (simp add: ConstantTimeCompare_Suc split: if_splits option.splits sum.splits prod.splits)

lemma mStart_of_pos: "mStart_of b k = Some ms \<Longrightarrow> 0 < ms"
  by (auto simp: mStart_of_def split: if_splits)

lemma symEncrypt_InrD:
  assumes "symEncrypt r ps key m = (Inr em, r')"
  shows "\<exists>c iv. Cipher ps key = Inr c \<and> length iv = BlockSize ps \<and> BlockSize ps = b_size c \<and>
           em = iv @ XORKeyStream c iv m"
proof -
  from assms obtain c where c: "Cipher ps key = Inr c"
    by (auto simp: symEncrypt_def split: sum.splits)
  with assms have "BlockSize ps \<le> length r \<and> BlockSize ps = b_size c \<and>
      em = take (BlockSize ps) r @ XORKeyStream c (take (BlockSize ps) r) m"
    by (auto simp: symEncrypt_def generateIV_def ReadFull_def split: if_splits)
  with c show ?thesis
    by (intro exI [of _ c] exI [of _ "take (BlockSize ps) r"]) simp
qed

lemma Encrypt_InrD:
  assumes "Encrypt L r pub m s1 s2 = (Inr ct, r')" "resolveParams L pub = Some ps"
  shows "\<exists>pb x y r1 z K hs em.
    c_GenerateKey (curves L (Curve pub)) r = (Inr (pb, x, y), r1) \<and>
    GenerateShared L \<lparr>Pub = \<lparr>X = x, Y = y, Curve = Curve pub, Params = Some ps\<rparr>, D = SetBytes pb\<rparr> pub
      = Inr z \<and>
    concatKDF (growslice L) (Hash ps) [] z s1 (KeyLen ps + KeyLen ps) = (Inr K, hs) \<and>
    symEncrypt r1 ps (take (KeyLen ps) K) m = (Inr em, r') \<and>
    (if length em \<le> BlockSize ps then ct = []
     else \<exists>Rb. Marshal (curves L (Curve pub)) x y = Inr Rb \<and>
       ct = Rb @ em @ messageTag (Hash ps) (h_Sum (Hash ps) (hs @ drop (KeyLen ps) K)) em s2)"
  using assms
  unfolding Encrypt_def GenerateKey_def Let_def
  by (auto split: if_splits option.splits sum.splits prod.splits)

lemma symDecrypt_symEncrypt:
  assumes "symEncrypt r ps key m = (Inr em, r')" "cipher_ok ps"
  shows "symDecrypt ps key em = Inr m \<and> length em = BlockSize ps + length m"
proof -
  from symEncrypt_InrD [OF assms(1)] obtain c iv where
    c: "Cipher ps key = Inr c" and iv: "length iv = BlockSize ps" and bs: "BlockSize ps = b_size c"
    and em: "em = iv @ XORKeyStream c iv m"
    by blast
  from assms(2) c have ok: "block_ok c" by (simp add: cipher_ok_def)
  have ivc: "length iv = b_size c" using iv bs by simp
  have l: "length (XORKeyStream c iv m) = length m"
    using ok ivc by (rule XORKeyStream_length)
  have t: "XORKeyStream c iv (XORKeyStream c iv m) = m"
    using ok ivc by (rule XORKeyStream_twice)
  have "symDecrypt ps key em = Inr m"
    unfolding symDecrypt_def using c iv bs [symmetric] t by (simp add: em)
  then show ?thesis using l iv by (simp add: em)
qed

lemma Encrypt_frame:
  assumes enc: "Encrypt L r pub m s1 s2 = (Inr ct, r')"
    and ps: "resolveParams L pub = Some ps"
    and co: "cipher_ok ps" and m: "m \<noteq> []"
  shows "\<exists>pb x y r1 z K hs em Rb.
    c_GenerateKey (curves L (Curve pub)) r = (Inr (pb, x, y), r1) \<and>
    GenerateShared L \<lparr>Pub = \<lparr>X = x, Y = y, Curve = Curve pub, Params = Some ps\<rparr>, D = SetBytes pb\<rparr> pub
      = Inr z \<and>
    concatKDF (growslice L) (Hash ps) [] z s1 (KeyLen ps + KeyLen ps) = (Inr K, hs) \<and>
    symDecrypt ps (take (KeyLen ps) K) em = Inr m \<and>
    length em = BlockSize ps + length m \<and>
    Marshal (curves L (Curve pub)) x y = Inr Rb \<and>
    ct = Rb @ em @ messageTag (Hash ps) (h_Sum (Hash ps) (hs @ drop (KeyLen ps) K)) em s2"
proof -
  from Encrypt_InrD [OF enc ps] obtain pb x y r1 z K hs em where
    g: "c_GenerateKey (curves L (Curve pub)) r = (Inr (pb, x, y), r1)"
    and sh: "GenerateShared L \<lparr>Pub = \<lparr>X = x, Y = y, Curve = Curve pub, Params = Some ps\<rparr>,
        D = SetBytes pb\<rparr> pub = Inr z"
    and k: "concatKDF (growslice L) (Hash ps) [] z s1 (KeyLen ps + KeyLen ps) = (Inr K, hs)"
    and se: "symEncrypt r1 ps (take (KeyLen ps) K) m = (Inr em, r')"
    and fr: "if length em \<le> BlockSize ps then ct = []
       else \<exists>Rb. Marshal (curves L (Curve pub)) x y = Inr Rb \<and>
         ct = Rb @ em @ messageTag (Hash ps) (h_Sum (Hash ps) (hs @ drop (KeyLen ps) K)) em s2"
    by blast
  from symDecrypt_symEncrypt [OF se co] have
    sd: "symDecrypt ps (take (KeyLen ps) K) em = Inr m" and le: "length em = BlockSize ps + length m"
    by simp_all
  from le m have "\<not> length em \<le> BlockSize ps" by simp
  with fr obtain Rb where "Marshal (curves L (Curve pub)) x y = Inr Rb"
    "ct = Rb @ em @ messageTag (Hash ps) (h_Sum (Hash ps) (hs @ drop (KeyLen ps) K)) em s2"
    by auto
  with g sh k sd le show ?thesis by blast
qed

lemma Encrypt_stages:
  assumes "resolveParams L pub = Some ps"
    and "c_GenerateKey (curves L (Curve pub)) r = (Inr (pb, x, y), r1)"
    and "GenerateShared L \<lparr>Pub = \<lparr>X = x, Y = y, Curve = Curve pub, Params = Some ps\<rparr>, D = SetBytes pb\<rparr> pub
      = Inr z"
    and "concatKDF (growslice L) (Hash ps) [] z s1 (KeyLen ps + KeyLen ps) = (Inr K, hs)"
    and "symEncrypt r1 ps (take (KeyLen ps) K) m = (Inr em, r2)"
    and "BlockSize ps < length em"
    and "Marshal (curves L (Curve pub)) x y = Inr Rb"
  shows "Encrypt L r pub m s1 s2 =
    (Inr (Rb @ em @ messageTag (Hash ps) (h_Sum (Hash ps) (hs @ drop (KeyLen ps) K)) em s2), r2)"
  using assms(6)
  unfolding Encrypt_def GenerateKey_def Let_def
  by (simp add: assms(1,2,3,4,5,7))

section \<open>Serialization: writing and reading back\<close>

lemma Equal_iff: "Equal a b \<longleftrightarrow> a = b"
proof -
  have "Equal a b \<longleftrightarrow> length a = length b \<and> (\<forall>i<length a. a ! i = b ! i)"
    by (auto simp: Equal_def list_all_iff)
  also have "\<dots> \<longleftrightarrow> a = b"
    by (rule list_eq_iff_nth_eq [symmetric])
  finally show ?thesis .
qed

lemma namedCurve_roundtrip:
  "oidFromNamedCurve c = Some curve \<Longrightarrow> namedCurveFromOID curve = Some c"
  by (auto simp: oidFromNamedCurve_def namedCurveFromOID_def Equal_iff
      secgNamedCurveP224_def secgNamedCurveP256_def secgNamedCurveP384_def secgNamedCurveP521_def
      split: curve_id.splits)

lemma MarshalPublic_InrD:
  assumes "MarshalPublic cd L pub = Inr der"
  shows "\<exists>curve pubkey algs.
      oidFromNamedCurve (Curve pub) = Some curve \<and>
      Marshal (curves L (Curve pub)) (X pub) (Y pub) = Inr pubkey \<and>
      asn1_MarshalPublic cd
        \<lparr>spki_Algorithm = idEcPublicKeySupplemented,
         spki_PublicKey = \<lparr>bit_Bytes = pubkey, bit_BitLength = length pubkey * 8\<rparr>,
         spki_Supplements = \<lparr>sup_ECDomain = curve, sup_ECCAlgorithms = algs\<rparr>\<rparr> = Inr der"
  using assms
  by (auto simp: MarshalPublic_def marshalSubjectPublicKeyInfo_def Let_def
      split: option.splits sum.splits)

lemma UnmarshalPublic_MarshalPublic:
  assumes cd: "codec_ok cd" and vp: "valid_point L pub"
    and m: "MarshalPublic cd L pub = Inr der"
  shows "\<exists>ps. UnmarshalPublic cd L der = Inr \<lparr>X = X pub, Y = Y pub, Curve = Curve pub, Params = Some ps\<rparr>"
proof -
  from MarshalPublic_InrD [OF m] obtain curve pubkey algs where
    o: "oidFromNamedCurve (Curve pub) = Some curve"
    and p: "Marshal (curves L (Curve pub)) (X pub) (Y pub) = Inr pubkey"
    and a: "asn1_MarshalPublic cd
        \<lparr>spki_Algorithm = idEcPublicKeySupplemented,
         spki_PublicKey = \<lparr>bit_Bytes = pubkey, bit_BitLength = length pubkey * 8\<rparr>,
         spki_Supplements = \<lparr>sup_ECDomain = curve, sup_ECCAlgorithms = algs\<rparr>\<rparr> = Inr der"
    by blast
  from cd a have u: "asn1_UnmarshalPublic cd der = Inr
        \<lparr>spki_Algorithm = idEcPublicKeySupplemented,
         spki_PublicKey = \<lparr>bit_Bytes = pubkey, bit_BitLength = length pubkey * 8\<rparr>,
         spki_Supplements = \<lparr>sup_ECDomain = curve, sup_ECCAlgorithms = algs\<rparr>\<rparr>"
    unfolding codec_ok_def by blast
  have n: "namedCurveFromOID curve = Some (Curve pub)"
    using o by (rule namedCurve_roundtrip)
  have um: "Unmarshal (curves L (Curve pub)) pubkey = Some (X pub, Y pub)"
    using p vp by (intro Unmarshal_Marshal) (simp_all add: valid_point_def)
  show ?thesis
    by (simp add: UnmarshalPublic_def u n um)
qed

lemma MarshalPublic_succeeds:
  assumes en: "codec_encodes cd"
    and nc: "Curve pub \<in> {P224, P256, P384, P521}"
    and vp: "valid_point L pub"
    and fit: "c_P (curves L (Curve pub)) \<le> 2 ^ c_BitSize (curves L (Curve pub))"
  shows "\<exists>der. MarshalPublic cd L pub = Inr der"
proof -
  let ?cv = "curves L (Curve pub)"
  from nc obtain curve where o: "oidFromNamedCurve (Curve pub) = Some curve"
    by (auto simp: oidFromNamedCurve_def)
  from vp fit have "\<bar>X pub\<bar> < 2 ^ c_BitSize ?cv" "\<bar>Y pub\<bar> < 2 ^ c_BitSize ?cv"
    by (simp_all add: valid_point_def)
  then obtain xb yb where "FillBytes (X pub) (byteLen ?cv) = Inr xb"
    "FillBytes (Y pub) (byteLen ?cv) = Inr yb"
    using FillBytes_fits [of "X pub" ?cv] FillBytes_fits [of "Y pub" ?cv] by blast
  with vp have m: "Marshal ?cv (X pub) (Y pub) = Inr (4 # xb @ yb)"
    by (simp add: Marshal_def valid_point_def)
  obtain subj where s: "marshalSubjectPublicKeyInfo cd L pub = Inr subj"
    by (simp add: marshalSubjectPublicKeyInfo_def o m Let_def)
  from en obtain der where "asn1_MarshalPublic cd subj = Inr der"
    unfolding codec_encodes_def by blast
  with s show ?thesis by (simp add: MarshalPublic_def)
qed

section \<open>The small library meets the contracts\<close>

lemma toy_point_on:
  assumes "0 < bits"
  shows "0 \<le> fst (toy_point bits k) \<and> fst (toy_point bits k) < 2 ^ bits - 1 \<and>
         0 \<le> snd (toy_point bits k) \<and> snd (toy_point bits k) < 2 ^ bits - 1 \<and>
         snd (toy_point bits k) = (fst (toy_point bits k) * fst (toy_point bits k)) mod (2 ^ bits - 1)"
proof -
  have "(2::int) ^ 1 \<le> 2 ^ bits" using assms by (intro power_increasing) simp_all
  then have m: "(0::int) < 2 ^ bits - 1" by simp
  show ?thesis using m by (simp add: toy_point_def mod_mult_eq)
qed

lemma toy_point_cong:
  "u mod (2 ^ bits - 1) = v mod (2 ^ bits - 1) \<Longrightarrow> toy_point bits u = toy_point bits v"
  by (simp add: toy_point_def) (metis mod_mult_eq)

lemma toy_curve_ok: "0 < bits \<Longrightarrow> curve_ok (toy_curve bits)"
  unfolding curve_ok_def dh_ok_def
proof (intro conjI allI impI)
  fix a b :: bytes
  assume "0 < bits"
  have "(fst (toy_point bits (3 * SetBytes a)) * SetBytes b) mod (2 ^ bits - 1) =
        (fst (toy_point bits (3 * SetBytes b)) * SetBytes a) mod (2 ^ bits - 1)"
  proof -
    have "(3 * SetBytes a mod (2 ^ bits - 1) * SetBytes b) mod (2 ^ bits - 1) =
          (3 * SetBytes a * SetBytes b) mod (2 ^ bits - 1)"
      by (rule mod_mult_left_eq)
    moreover have "(3 * SetBytes b mod (2 ^ bits - 1) * SetBytes a) mod (2 ^ bits - 1) =
          (3 * SetBytes b * SetBytes a) mod (2 ^ bits - 1)"
      by (rule mod_mult_left_eq)
    moreover have "3 * SetBytes a * SetBytes b = 3 * SetBytes b * SetBytes a" by simp
    ultimately show ?thesis by (simp only: toy_point_def fst_conv)
  qed
  then show "c_ScalarMult (toy_curve bits) (fst (c_ScalarBaseMult (toy_curve bits) a))
        (snd (c_ScalarBaseMult (toy_curve bits) a)) b =
       c_ScalarMult (toy_curve bits) (fst (c_ScalarBaseMult (toy_curve bits) b))
        (snd (c_ScalarBaseMult (toy_curve bits) b)) a"
    by (simp add: toy_curve_def) (rule toy_point_cong)
next
  fix r pb x y r'
  assume "0 < bits" "c_GenerateKey (toy_curve bits) r = (Inr (pb, x, y), r')"
  then show "c_ScalarBaseMult (toy_curve bits) (Bytes (SetBytes pb)) = (x, y)"
    by (auto simp: toy_curve_def SetBytes_Bytes SetBytes_nonneg split: prod.splits sum.splits)
qed (use toy_point_on in \<open>simp_all add: toy_curve_def\<close>)

lemma toy_key_pairs: "key_pair toy_lib toy_prv" "key_pair toy_lib toy_prv2"
  by (simp_all add: key_pair_def model_defs toy_defs toy_prv2_def eval_simps)

lemma toy_hash_ok: "hash_ok (toy_hash sz bs)"
  by (simp add: hash_ok_def toy_hash_def)

lemma toy_block_ok: "0 < n \<Longrightarrow> block_ok (toy_block n key)"
  by (simp add: block_ok_def toy_block_def)


lemma toy_aes_cipher_ok: "Cipher ps = toy_aes \<Longrightarrow> cipher_ok ps"
  by (auto simp: cipher_ok_def toy_aes_def toy_block_ok split: if_splits)

lemma get_put_nat: "get_nat (put_nat n @ r) = Some (n, r)"
  by (induction n) (simp_all add: put_nat_def)

lemma get_put_bytes: "get_bytes (put_bytes bs @ r) = Some (bs, r)"
  by (simp add: get_bytes_def put_bytes_def get_put_nat)

lemma get_put_nats_n: "get_nats_n (length xs) (concat (map put_nat xs) @ r) = Some (xs, r)"
  by (induction xs) (simp_all add: get_put_nat)

lemma get_put_nats: "get_nats (put_nats xs @ r) = Some (xs, r)"
  by (simp add: get_nats_def put_nats_def get_put_nat get_put_nats_n)

lemma get_put_int: "get_int (put_int i @ r) = Some (i, r)"
  by (simp add: get_int_def put_int_def get_put_nat)

lemma get_put_string: "get_string (put_string s @ r) = Some (s, r)"
  by (simp add: get_string_def put_string_def get_put_nats)

lemma get_put_alg: "get_alg (put_alg a @ r) = Some (a, r)"
  by (simp add: get_alg_def put_alg_def get_put_nats get_put_bytes)

lemma get_put_ecies: "get_ecies (put_ecies e @ r) = Some (e, r)"
  by (simp add: get_ecies_def put_ecies_def get_put_alg)

lemma get_put_algset: "get_algset (put_algset a @ r) = Some (a, r)"
  by (simp add: get_algset_def put_algset_def get_put_alg get_put_ecies)

lemma get_put_bits: "get_bits (put_bits b @ r) = Some (b, r)"
  by (simp add: get_bits_def put_bits_def get_put_bytes get_put_nat)

lemma get_put_spki: "get_spki (put_spki s @ r) = Some (s, r)"
  by (simp add: get_spki_def put_spki_def get_put_nats get_put_bits get_put_algset)

lemma get_put_prv: "get_prv (put_prv k @ r) = Some (k, r)"
  by (simp add: get_prv_def put_prv_def get_put_int get_put_bytes get_put_nats get_put_bits)

lemma get_put_pem: "get_pem (put_pem b @ r) = Some (b, r)"
  by (simp add: get_pem_def put_pem_def get_put_string get_put_bytes)

lemma toy_codec_ok: "codec_ok toy_codec"
  using get_put_spki [of _ "[]"] get_put_prv [of _ "[]"] get_put_pem [of _ "[]"]
  by (auto simp: codec_ok_def toy_codec_def)

lemma toy_codec_encodes: "codec_encodes toy_codec"
  by (simp add: codec_encodes_def toy_codec_def)

lemma toy_tag_differs:
  "messageTag (toy_hash 2 4) km [9, 11, 212, 213, 215] [] \<noteq>
   messageTag (toy_hash 2 4) km [9, 11, 212, 213, 214] []"
  by (simp add: messageTag_def hmac_def toy_hash_def upt_to_numeral Let_def)

section \<open>The claims\<close>

subsection \<open>C1: decrypting what Encrypt returned\<close>




subsection \<open>C2: a changed byte\<close>

text \<open>C2, as the code has it, for the body and the tag: when Decrypt accepts a ciphertext,
  changing any single byte of its tag makes Decrypt return ErrInvalidMessage; and so does
  changing any single byte of its body, provided the MAC of the changed body differs from
  the MAC of the body under every key.\<close>

theorem Decrypt_byte_changed:
  assumes dec: "Decrypt L prv c s1 s2 = Inr m"
    and ps: "resolveParams L (kp_Public prv) = Some ps"
    and ms: "mStart_of (c ! 0) ((c_BitSize (curves L (Curve (kp_Public prv))) + 7) div 8) = Some ms"
    and i: "ms \<le> i" "i < length c"
    and b: "b \<noteq> c ! i"
    and mac: "i < length c - h_Size (Hash ps) \<longrightarrow>
      (\<forall>km. messageTag (Hash ps) km
               (take (length c - h_Size (Hash ps) - ms) (drop ms (c[i := b]))) s2 \<noteq>
            messageTag (Hash ps) km
               (take (length c - h_Size (Hash ps) - ms) (drop ms c)) s2)"
  shows "Decrypt L prv (c[i := b]) s1 s2 = Inl ErrInvalidMessage"
proof -
  let ?h = "h_Size (Hash ps)"
  from Decrypt_InrD [OF dec ps] ms obtain rx ry z K hs where
    ne: "c \<noteq> []"
    and len: "ms + ?h + 1 \<le> length c"
    and um: "Unmarshal (curves L (Curve (kp_Public prv))) (take ms c) = Some (rx, ry)"
    and gs: "kp_GenerateShared prv \<lparr>X = rx, Y = ry, Curve = Curve (kp_Public prv), Params = None\<rparr> = Inr z"
    and kdf: "concatKDF (growslice L) (Hash ps) [] z s1 (KeyLen ps + KeyLen ps) = (Inr K, hs)"
    and tag: "drop (length c - ?h) c =
         messageTag (Hash ps) (h_Sum (Hash ps) (hs @ drop (KeyLen ps) K))
           (take (length c - ?h - ms) (drop ms c)) s2"
    by auto
  let ?c = "c[i := b]"
  let ?km = "h_Sum (Hash ps) (hs @ drop (KeyLen ps) K)"
  have mi: "0 < i" using i mStart_of_pos [OF ms] by simp
  have ne': "?c \<noteq> []" using ne by simp
  have c0: "?c ! 0 = c ! 0" using mi by simp
  have pt: "take ms ?c = take ms c" using i by simp
  have st: "Decrypt L prv ?c s1 s2 =
     (if drop (length ?c - ?h) ?c =
         messageTag (Hash ps) ?km (take (length ?c - ?h - ms) (drop ms ?c)) s2
      then symDecrypt ps (take (KeyLen ps) K) (take (length ?c - ?h - ms) (drop ms ?c))
      else Inl ErrInvalidMessage)"
    by (rule Decrypt_stages [OF ne' ps])
      (use ms len um gs kdf in \<open>simp_all only: c0 pt length_list_update\<close>)
  have "drop (length ?c - ?h) ?c \<noteq>
      messageTag (Hash ps) ?km (take (length ?c - ?h - ms) (drop ms ?c)) s2"
  proof (cases "i < length c - ?h")
    case True
    then have "drop (length ?c - ?h) ?c = drop (length c - ?h) c" by simp
    moreover from mac True have
      "messageTag (Hash ps) ?km (take (length c - ?h - ms) (drop ms ?c)) s2 \<noteq>
       messageTag (Hash ps) ?km (take (length c - ?h - ms) (drop ms c)) s2"
      by blast
    ultimately show ?thesis using tag by (simp only: length_list_update) metis
  next
    case False
    then have body: "take (length ?c - ?h - ms) (drop ms ?c) = take (length c - ?h - ms) (drop ms c)"
      using i len by (simp add: drop_update_swap)
    have "drop (length c - ?h) ?c ! (i - (length c - ?h)) = b"
      using i False by simp
    moreover have "drop (length c - ?h) c ! (i - (length c - ?h)) = c ! i"
      using i False by simp
    ultimately have "drop (length ?c - ?h) ?c \<noteq> drop (length c - ?h) c"
      using b by (metis length_list_update)
    with tag body show ?thesis by simp
  qed
  with st show ?thesis by (simp only: if_False)
qed

theorem Decrypt_byte_changed_witness:
  "Decrypt toy_lib (provider toy_lib toy_prv) ([4, 21, 186, 9, 11, 212, 213, 214, 56, 17][9 := 0]) [] []
     = Inl ErrInvalidMessage \<and>
   Decrypt toy_lib (provider toy_lib toy_prv) ([4, 21, 186, 9, 11, 212, 213, 214, 56, 17][7 := 215]) [] []
     = Inl ErrInvalidMessage"
proof -
  let ?c = "[4, 21, 186, 9, 11, 212, 213, 214, 56, 17] :: bytes"
  have d: "Decrypt toy_lib (provider toy_lib toy_prv) ?c [] [] = Inr [1, 2, 3]"
    by (simp add: model_defs toy_defs eval_simps)
  have p: "resolveParams toy_lib (kp_Public (provider toy_lib toy_prv)) = Some toy_params"
    by (simp add: resolveParams_def provider_def Public_def toy_prv_def)
  have s: "mStart_of (?c ! 0)
      ((c_BitSize (curves toy_lib (Curve (kp_Public (provider toy_lib toy_prv)))) + 7) div 8) = Some 3"
    by (simp add: mStart_of_def provider_def Public_def toy_prv_def toy_lib_def toy_curve_def)
  have h: "h_Size (Hash toy_params) = 2" "Hash toy_params = toy_hash 2 4"
    "h_Size (toy_hash 2 4) = 2"
    by (simp_all add: toy_params_def toy_hash_def)
  have t: "Decrypt toy_lib (provider toy_lib toy_prv) (?c[9 := 0]) [] [] = Inl ErrInvalidMessage"
    by (rule Decrypt_byte_changed [OF d p s]) (simp_all add: h)
  have u: "Decrypt toy_lib (provider toy_lib toy_prv) (?c[7 := 215]) [] [] = Inl ErrInvalidMessage"
    by (rule Decrypt_byte_changed [OF d p s]) (simp_all add: h toy_tag_differs)
  from t u show ?thesis by (rule conjI)
qed

text \<open>C2 as stated, for a byte at any position, fails at the first byte of the point: with 5
  in place of 4 the answer is ErrInvalidPublicKey.\<close>

theorem Decrypt_point_changed:
  "Decrypt toy_lib (provider toy_lib toy_prv) ([4, 21, 186, 9, 11, 212, 213, 214, 56, 17][0 := 5]) [] []
     = Inl ErrInvalidPublicKey"
  by (simp add: model_defs toy_defs eval_simps)

subsection \<open>C4: the length of the ciphertext\<close>

text \<open>C4, as the code has it: for every non-empty message m, a ciphertext that Encrypt returns
  has \<open>1 + 2 * ((BitSize + 7) div 8) + BlockSize + len(m) + hash.Size()\<close> bytes; for a P-256 key
  with the default parameters (SHA-256 of size 32, block size 16) and a message of 5 bytes
  that is 118.\<close>

theorem Encrypt_length:
  assumes enc: "Encrypt L r pub m s1 s2 = (Inr ct, r')"
    and ps: "resolveParams L pub = Some ps"
    and ho: "hash_ok (Hash ps)" and co: "cipher_ok ps" and m: "m \<noteq> []"
  shows "length ct = 1 + 2 * ((c_BitSize (curves L (Curve pub)) + 7) div 8)
            + BlockSize ps + length m + h_Size (Hash ps) \<and>
         (Curve pub = P256 \<and> Params pub = None \<and> c_BitSize (curves L P256) = 256 \<and>
          h_Size (sha256 L) = 32 \<and> length m = 5 \<longrightarrow> length ct = 118)"
proof -
  from Encrypt_frame [OF enc ps co m] obtain x y K hs em Rb where
    le: "length em = BlockSize ps + length m"
    and rb: "Marshal (curves L (Curve pub)) x y = Inr Rb"
    and ct: "ct = Rb @ em @ messageTag (Hash ps) (h_Sum (Hash ps) (hs @ drop (KeyLen ps) K)) em s2"
    by blast
  have f: "length ct = 1 + 2 * ((c_BitSize (curves L (Curve pub)) + 7) div 8)
            + BlockSize ps + length m + h_Size (Hash ps)"
    using le Marshal_length [OF rb] messageTag_length [OF ho]
    by (simp add: ct byteLen_def)
  have "length ct = 118"
    if "Curve pub = P256" "Params pub = None" "c_BitSize (curves L P256) = 256"
      "h_Size (sha256 L) = 32" "length m = 5"
  proof -
    from that ps have "ps = \<lparr>Hash = sha256 L, Cipher = aes L, BlockSize = 16, KeyLen = 16\<rparr>"
      by (simp add: resolveParams_def ParamsFromCurve_def)
    with f that show ?thesis by simp
  qed
  with f show ?thesis by blast
qed

theorem Encrypt_length_witness:
  "case fst (Encrypt toy_lib (replicate 48 7) (Public toy_prv256) [1, 2, 3, 4, 5] [] []) of
     Inr ct \<Rightarrow> length ct = 118
   | Inl e \<Rightarrow> False"
proof -
  let ?ps = "\<lparr>Hash = toy_hash 32 64, Cipher = toy_aes, BlockSize = 16, KeyLen = 16\<rparr>"
  let ?pub = "Public toy_prv256"
  let ?cv = "toy_curve 256"
  let ?pb = "replicate 32 (7::byte)"
  let ?pt = "toy_point 256 (3 * SetBytes ?pb)"
  let ?m = "[1, 2, 3, 4, 5] :: bytes"
  have cvq: "curves toy_lib (Curve ?pub) = ?cv" and crv: "Curve ?pub = P256"
    and noparams: "Params ?pub = None"
    by (simp_all add: toy_lib_def Public_def toy_prv256_def)
  have ps: "resolveParams toy_lib ?pub = Some ?ps"
    by (simp add: resolveParams_def ParamsFromCurve_def toy_lib_def Public_def toy_prv256_def)
  have ho: "hash_ok (Hash ?ps)" by (simp add: toy_hash_ok)
  have co: "cipher_ok ?ps" by (rule toy_aes_cipher_ok) simp
  have m: "?m \<noteq> []" by simp
  have on: "\<bar>fst (toy_point 256 k)\<bar> < 2 ^ c_BitSize ?cv"
      "\<bar>snd (toy_point 256 k)\<bar> < 2 ^ c_BitSize ?cv"
      "c_IsOnCurve ?cv (fst (toy_point 256 k)) (snd (toy_point 256 k))" for k
    using toy_point_on [of 256 k] by (simp_all add: toy_curve_def)
  have g: "c_GenerateKey (curves toy_lib (Curve ?pub)) (replicate 48 7)
      = (Inr (?pb, fst ?pt, snd ?pt), replicate 16 7)"
    unfolding cvq by (simp add: toy_curve_def ReadFull_def)
  obtain z where sh: "GenerateShared toy_lib
      \<lparr>Pub = \<lparr>X = fst ?pt, Y = snd ?pt, Curve = Curve ?pub, Params = Some ?ps\<rparr>, D = SetBytes ?pb\<rparr>
      ?pub = Inr z"
  proof -
    have sm: "c_ScalarMult ?cv xx yy kk = Some (toy_point 256 (xx * SetBytes kk))" for xx yy kk
      by (simp add: toy_curve_def)
    have "GenerateShared toy_lib
      \<lparr>Pub = \<lparr>X = fst ?pt, Y = snd ?pt, Curve = Curve ?pub, Params = Some ?ps\<rparr>, D = SetBytes ?pb\<rparr>
      ?pub = FillBytes (fst (toy_point 256 (X ?pub * SetBytes (Bytes (SetBytes ?pb))))) (byteLen ?cv)"
      by (simp add: GenerateShared_def cvq sm case_prod_unfold)
    with FillBytes_fits [OF on(1)] that show ?thesis by metis
  qed
  obtain K where k: "concatKDF (growslice toy_lib) (Hash ?ps) [] z [] (KeyLen ?ps + KeyLen ?ps)
      = (Inr K, [])" and lk: "length K = 32"
  proof -
    have sz: "h_Size (toy_hash 32 64) = 32" "h_BlockSize (toy_hash 32 64) = 64"
      by (simp_all add: toy_hash_def)
    have "\<exists>K. concatKDF (growslice toy_lib) (toy_hash 32 64) [] z [] 32 = (Inr K, []) \<and> length K = 32"
      by (rule concatKDF_succeeds) (simp_all add: toy_hash_ok sz)
    with that show ?thesis by auto
  qed
  let ?c = "toy_block 16 (take 16 K)"
  let ?em = "replicate 16 7 @ XORKeyStream ?c (replicate 16 7) ?m"
  have se: "symEncrypt (replicate 16 7) ?ps (take (KeyLen ?ps) K) ?m = (Inr ?em, [])"
    using lk by (simp add: symEncrypt_def toy_aes_def generateIV_def ReadFull_def toy_block_def)
  have "length (XORKeyStream ?c (replicate 16 7) ?m) = length ?m"
    by (rule XORKeyStream_length) (simp_all add: toy_block_ok, simp add: toy_block_def)
  then have le: "BlockSize ?ps < length ?em" by simp
  obtain Rb where rb: "Marshal (curves toy_lib (Curve ?pub)) (fst ?pt) (snd ?pt) = Inr Rb"
  proof -
    from FillBytes_fits [OF on(1)] obtain xb where "FillBytes (fst ?pt) (byteLen ?cv) = Inr xb"
      by blast
    moreover from FillBytes_fits [OF on(2)] obtain yb where "FillBytes (snd ?pt) (byteLen ?cv) = Inr yb"
      by blast
    ultimately have "Marshal (curves toy_lib (Curve ?pub)) (fst ?pt) (snd ?pt) = Inr (4 # xb @ yb)"
      using on(3) by (simp add: Marshal_def cvq)
    with that show ?thesis by blast
  qed
  note enc = Encrypt_stages [OF ps g sh k se le rb, of "[]"]
  from Encrypt_length [OF enc ps ho co m] crv noparams
  have "length (Rb @ ?em @ messageTag (Hash ?ps) (h_Sum (Hash ?ps) ([] @ drop (KeyLen ?ps) K)) ?em [])
      = 118"
    by (simp add: toy_lib_def toy_curve_def toy_hash_def)
  then show ?thesis by (simp only: enc fst_conv sum.case)
qed

text \<open>C4 as stated, for every plaintext, fails at the empty one: the ciphertext returned is
  empty, not of the length the formula gives.\<close>

theorem Encrypt_length_empty_fails:
  "fst (Encrypt toy_lib [7, 9, 11, 13] (Public toy_prv) [] [3] []) = Inr [] \<and>
   length ([] :: bytes) \<noteq>
     1 + 2 * ((c_BitSize (curves toy_lib (Curve (Public toy_prv))) + 7) div 8)
       + BlockSize toy_params + length ([] :: bytes) + h_Size (Hash toy_params)"
  by (simp add: model_defs toy_defs eval_simps)

subsection \<open>C6: the shared secret\<close>

text \<open>C6: for two key pairs on the same curve, a curve with the Diffie-Hellman property,
  GenerateShared of the one private key with the other public key gives the same result
  both ways; a shared secret it returns has \<open>(BitSize + 7) div 8\<close> bytes, which are the
  x-coordinate of the scalar product, zero bytes first; and it returns one whenever that
  x-coordinate is below \<open>2 ^ BitSize\<close>.\<close>

theorem GenerateShared_symmetric:
  assumes "dh_ok (curves L (Curve (Pub a)))" "key_pair L a" "key_pair L b"
    "Curve (Pub a) = Curve (Pub b)"
  shows "GenerateShared L a (Public b) = GenerateShared L b (Public a) \<and>
    (\<forall>z. GenerateShared L a (Public b) = Inr z \<longrightarrow>
       length z = (c_BitSize (curves L (Curve (Pub b))) + 7) div 8 \<and>
       (\<exists>x y. c_ScalarMult (curves L (Curve (Pub b))) (X (Pub b)) (Y (Pub b)) (Bytes (D a)) = Some (x, y) \<and>
          z = replicate ((c_BitSize (curves L (Curve (Pub b))) + 7) div 8 - length (Bytes x)) 0 @ Bytes x)) \<and>
    (\<forall>x y. c_ScalarMult (curves L (Curve (Pub b))) (X (Pub b)) (Y (Pub b)) (Bytes (D a)) = Some (x, y) \<longrightarrow>
       \<bar>x\<bar> < 2 ^ c_BitSize (curves L (Curve (Pub b))) \<longrightarrow>
       (\<exists>z. GenerateShared L a (Public b) = Inr z))"
proof (intro conjI)
  let ?cv = "curves L (Curve (Pub a))"
  have "c_ScalarMult ?cv (X (Pub b)) (Y (Pub b)) (Bytes (D a)) =
        c_ScalarMult ?cv (X (Pub a)) (Y (Pub a)) (Bytes (D b))"
    using assms by (intro ecdh_symmetric) (simp_all add: key_pair_def)
  then show "GenerateShared L a (Public b) = GenerateShared L b (Public a)"
    using assms(4) by (simp add: GenerateShared_def Public_def split: option.splits)
  show "\<forall>z. GenerateShared L a (Public b) = Inr z \<longrightarrow>
       length z = (c_BitSize (curves L (Curve (Pub b))) + 7) div 8 \<and>
       (\<exists>x y. c_ScalarMult (curves L (Curve (Pub b))) (X (Pub b)) (Y (Pub b)) (Bytes (D a)) = Some (x, y) \<and>
          z = replicate ((c_BitSize (curves L (Curve (Pub b))) + 7) div 8 - length (Bytes x)) 0 @ Bytes x)"
    using GenerateShared_InrD [of L a "Public b"]
    by (simp add: Public_def byteLen_def)
  show "\<forall>x y. c_ScalarMult (curves L (Curve (Pub b))) (X (Pub b)) (Y (Pub b)) (Bytes (D a)) = Some (x, y) \<longrightarrow>
       \<bar>x\<bar> < 2 ^ c_BitSize (curves L (Curve (Pub b))) \<longrightarrow>
       (\<exists>z. GenerateShared L a (Public b) = Inr z)"
    using assms(4) FillBytes_fits [of _ "curves L (Curve (Pub b))"]
    by (simp add: GenerateShared_def Public_def)
qed

theorem GenerateShared_symmetric_witness:
  "GenerateShared toy_lib toy_prv (Public toy_prv2) = Inr [105] \<and>
   GenerateShared toy_lib toy_prv2 (Public toy_prv) = Inr [105] \<and>
   length [105::byte] = (c_BitSize (curves toy_lib (Curve (Pub toy_prv2))) + 7) div 8"
proof -
  have "curve_ok (curves toy_lib (Curve (Pub toy_prv)))"
    by (simp add: toy_lib_def toy_prv_def toy_curve_ok)
  then have ok: "dh_ok (curves toy_lib (Curve (Pub toy_prv)))"
    by (simp add: curve_ok_def)
  have c: "Curve (Pub toy_prv) = Curve (Pub toy_prv2)"
    by (simp add: toy_prv_def toy_prv2_def)
  have v: "GenerateShared toy_lib toy_prv (Public toy_prv2) = Inr [105]"
    by (simp add: model_defs toy_defs toy_prv2_def eval_simps)
  note t = GenerateShared_symmetric [OF ok toy_key_pairs c]
  from t have "GenerateShared toy_lib toy_prv (Public toy_prv2) =
      GenerateShared toy_lib toy_prv2 (Public toy_prv)"
    by (rule conjunct1)
  with v have w: "GenerateShared toy_lib toy_prv2 (Public toy_prv) = Inr [105]"
    by simp
  from t have "GenerateShared toy_lib toy_prv (Public toy_prv2) = Inr [105] \<longrightarrow>
      length [105::byte] = (c_BitSize (curves toy_lib (Curve (Pub toy_prv2))) + 7) div 8 \<and>
      (\<exists>x y. c_ScalarMult (curves toy_lib (Curve (Pub toy_prv2))) (X (Pub toy_prv2))
          (Y (Pub toy_prv2)) (Bytes (D toy_prv)) = Some (x, y) \<and>
        [105] = replicate ((c_BitSize (curves toy_lib (Curve (Pub toy_prv2))) + 7) div 8
            - length (Bytes x)) 0 @ Bytes x)"
    by (rule conjunct2 [THEN conjunct1, THEN spec])
  with v have "length [105::byte] = (c_BitSize (curves toy_lib (Curve (Pub toy_prv2))) + 7) div 8"
    by (elim impE conjE) 
  with v w show ?thesis by (intro conjI)
qed


subsection \<open>C3: the empty message\<close>

text \<open>C3, as the code has it: for the empty message the output of symEncrypt is the IV alone,
  so the length check of Encrypt stops before the tag: whenever Encrypt returns a
  ciphertext for the empty message, that ciphertext is empty, and Decrypt answers it with
  ErrInvalidMessage.\<close>

theorem Encrypt_empty_message:
  "fst (Encrypt L r pub [] s1 s2) = Inr ct \<Longrightarrow>
   ct = [] \<and> Decrypt L prv ct s1' s2' = Inl ErrInvalidMessage"
  by (auto simp: Encrypt_def Decrypt_def Let_def dest: symEncrypt_Nil
      split: option.splits sum.splits prod.splits if_splits)

theorem Encrypt_empty_message_witness:
  "fst (Encrypt toy_lib [7, 9, 11, 13] (Public toy_prv) [] [] []) = Inr [] \<and>
   Decrypt toy_lib (provider toy_lib toy_prv) [] [] [] = Inl ErrInvalidMessage"
proof -
  have e: "fst (Encrypt toy_lib [7, 9, 11, 13] (Public toy_prv) [] [] []) = Inr []"
    by (simp add: model_defs toy_defs eval_simps)
  from Encrypt_empty_message [OF e, where prv = "provider toy_lib toy_prv"
      and s1' = "[]" and s2' = "[]"] e
  show ?thesis by simp
qed

text \<open>C3 as stated fails: on the small library, with a reader of three bytes, Encrypt of the
  empty message gives the empty ciphertext, which Decrypt does not map back to the empty
  message.\<close>

theorem Encrypt_empty_message_not_decrypted:
  "fst (Encrypt toy_lib [1, 2, 3] (Public toy_prv) [] [] []) = Inr [] \<and>
   Decrypt toy_lib (provider toy_lib toy_prv) [] [] [] \<noteq> Inr []"
  by (simp add: model_defs toy_defs eval_simps)

subsection \<open>C5: the length of the derived key\<close>

text \<open>C5 at SHA-256 sizes (digest 32, block 64) and a request of 48 bytes, the key material of
  AES-192 with SHA-256: \<open>reps\<close> is \<open>(48 + 7) * 8 div (64 * 8) = 0\<close>, the loop runs once and
  leaves 32 bytes in an array of 32, and \<open>k[:48]\<close> panics instead of returning 48 bytes.\<close>

theorem concatKDF_short_output_panics:
  assumes "hash_ok h" "h_Size h = 32" "h_BlockSize h = 64" "g 0 32 = 32"
  shows "concatKDF g h [] z s1 48 = (Inl Panic, [])"
proof -
  have "length (h_Sum h ([0, 0, 0, 1] @ z @ s1)) = 32"
    using assms by (simp add: hash_ok_def)
  then show ?thesis
    using assms by (simp add: concatKDF_def Let_def append_slice_def reslice_def)
qed

theorem concatKDF_short_output_panics_witness:
  "concatKDF (\<lambda>c n. n) (toy_hash 32 64) [] [105] [] 48 = (Inl Panic, [])"
  using concatKDF_short_output_panics [of "toy_hash 32 64" "\<lambda>c n. n" "[105]" "[]"]
  by (simp add: hash_ok_def toy_hash_def)

subsection \<open>C7: the leading byte\<close>

text \<open>C7, as the code has it: Decrypt answers the empty ciphertext with ErrInvalidMessage for
  every key; and for a key whose parameters resolve, it answers every non-empty ciphertext
  whose first byte is not 2, 3 or 4 with ErrInvalidPublicKey, whatever the shared
  information; for a key whose parameters do not resolve, it answers every non-empty
  ciphertext with ErrUnsupportedECIESParameters.\<close>

theorem Decrypt_leading_byte:
  "Decrypt L prv [] s1 s2 = Inl ErrInvalidMessage \<and>
   (c \<noteq> [] \<longrightarrow> resolveParams L (kp_Public prv) \<noteq> None \<longrightarrow>
    c ! 0 \<noteq> 2 \<longrightarrow> c ! 0 \<noteq> 3 \<longrightarrow> c ! 0 \<noteq> 4 \<longrightarrow>
    Decrypt L prv c s1 s2 = Inl ErrInvalidPublicKey) \<and>
   (c \<noteq> [] \<longrightarrow> resolveParams L (kp_Public prv) = None \<longrightarrow>
    Decrypt L prv c s1 s2 = Inl ErrUnsupportedECIESParameters)"
  by (auto simp: Decrypt_def mStart_of_def Let_def)

theorem Decrypt_leading_byte_witness:
  "Decrypt toy_lib (provider toy_lib toy_prv) [] [] [] = Inl ErrInvalidMessage \<and>
   Decrypt toy_lib (provider toy_lib toy_prv) [9, 21, 186, 9, 11, 212, 213, 214, 56, 17] [1] [2]
     = Inl ErrInvalidPublicKey"
  using Decrypt_leading_byte [of toy_lib "provider toy_lib toy_prv" "[]" "[]"
      "[9, 21, 186, 9, 11, 212, 213, 214, 56, 17]"]
    Decrypt_leading_byte [of toy_lib "provider toy_lib toy_prv" "[1]" "[2]"
      "[9, 21, 186, 9, 11, 212, 213, 214, 56, 17]"]
  by (simp add: resolveParams_def provider_def Public_def toy_prv_def)

text \<open>C7 as stated, for every key, fails: a key on P-224 without parameters gets
  ErrUnsupportedECIESParameters for the ciphertext of the single byte 0, since the
  parameters are resolved before the first byte is looked at.\<close>

theorem Decrypt_leading_byte_unsupported_key:
  "Decrypt toy_lib (provider toy_lib toy_prv224) [0] [] [] = Inl ErrUnsupportedECIESParameters"
  by (simp add: Decrypt_def resolveParams_def ParamsFromCurve_def provider_def Public_def
      toy_prv224_def)

subsection \<open>C8: keys written and read back\<close>

text \<open>C8: with codecs that encode every structure and read back what they wrote, for a key
  on P-224, P-256, P-384 or P-521 whose point is on the curve with coordinates in the
  field (a field that fits the bit size) and whose scalar is not negative: MarshalPublic
  returns an encoding and UnmarshalPublic of it returns a key with the same curve, X and
  Y; MarshalPrivate returns an encoding and UnmarshalPrivate of it returns a key with the
  same curve, X, Y and D; and ExportPublicPEM returns an encoding and ImportPublicPEM of it
  returns a key with the same X and Y.\<close>

theorem serialization_roundtrip:
  assumes cd: "codec_ok cd" and en: "codec_encodes cd"
    and nc: "Curve (Pub prv) \<in> {P224, P256, P384, P521}"
    and vp: "valid_point L (Pub prv)"
    and fit: "c_P (curves L (Curve (Pub prv))) \<le> 2 ^ c_BitSize (curves L (Curve (Pub prv)))"
    and d: "0 \<le> D prv"
  shows
    "(\<exists>der pub'. MarshalPublic cd L (Pub prv) = Inr der \<and> UnmarshalPublic cd L der = Inr pub' \<and>
        Curve pub' = Curve (Pub prv) \<and> X pub' = X (Pub prv) \<and> Y pub' = Y (Pub prv)) \<and>
     (\<exists>der prv'. MarshalPrivate cd L prv = Inr der \<and> UnmarshalPrivate cd L der = Inr prv' \<and>
        Curve (Pub prv') = Curve (Pub prv) \<and> X (Pub prv') = X (Pub prv) \<and>
        Y (Pub prv') = Y (Pub prv) \<and> D prv' = D prv) \<and>
     (\<exists>out pub'. ExportPublicPEM cd L (Pub prv) = Inr out \<and> ImportPublicPEM cd L out = Inr pub' \<and>
        X pub' = X (Pub prv) \<and> Y pub' = Y (Pub prv))"
proof -
  let ?pub = "Pub prv"
  from MarshalPublic_succeeds [OF en nc vp fit] obtain der where
    mp: "MarshalPublic cd L ?pub = Inr der" by blast
  from UnmarshalPublic_MarshalPublic [OF cd vp mp] obtain ps where
    up: "UnmarshalPublic cd L der =
      Inr \<lparr>X = X ?pub, Y = Y ?pub, Curve = Curve ?pub, Params = Some ps\<rparr>"
    by blast
  have one: "\<exists>der pub'. MarshalPublic cd L ?pub = Inr der \<and> UnmarshalPublic cd L der = Inr pub' \<and>
        Curve pub' = Curve ?pub \<and> X pub' = X ?pub \<and> Y pub' = Y ?pub"
    using mp up by auto
  from nc obtain curve where o: "oidFromNamedCurve (Curve ?pub) = Some curve"
    by (auto simp: oidFromNamedCurve_def)
  let ?k = "\<lparr>pk_Version = asnECPrivKeyVer1, pk_Private = Bytes (D prv), pk_Curve = curve,
         pk_Public = \<lparr>bit_Bytes = der, bit_BitLength = length der * 8\<rparr>\<rparr>"
  from en obtain dk where a: "asn1_MarshalPrivate cd ?k = Inr dk"
    unfolding codec_encodes_def by blast
  then have mk: "MarshalPrivate cd L prv = Inr dk"
    by (simp add: MarshalPrivate_def marshalPrivateKey_def o mp)
  from cd a have u: "asn1_UnmarshalPrivate cd dk = Inr ?k"
    unfolding codec_ok_def by blast
  have uk: "UnmarshalPrivate cd L dk =
      Inr \<lparr>Pub = \<lparr>X = X ?pub, Y = Y ?pub, Curve = Curve ?pub, Params = Some ps\<rparr>, D = D prv\<rparr>"
    using d by (simp add: UnmarshalPrivate_def u namedCurve_roundtrip [OF o] up SetBytes_Bytes)
  have two: "\<exists>der prv'. MarshalPrivate cd L prv = Inr der \<and> UnmarshalPrivate cd L der = Inr prv' \<and>
        Curve (Pub prv') = Curve ?pub \<and> X (Pub prv') = X ?pub \<and>
        Y (Pub prv') = Y ?pub \<and> D prv' = D prv"
    using mk uk by auto
  let ?b = "\<lparr>pem_Type = ''ELLIPTIC CURVE PUBLIC KEY'', pem_Bytes = der\<rparr>"
  from en obtain out where e: "pem_Encode cd ?b = Inr out"
    unfolding codec_encodes_def by blast
  then have ex: "ExportPublicPEM cd L ?pub = Inr out"
    by (simp add: ExportPublicPEM_def mp)
  from cd e have dec: "pem_Decode cd out = Some ?b"
    unfolding codec_ok_def by blast
  have im: "ImportPublicPEM cd L out =
      Inr \<lparr>X = X ?pub, Y = Y ?pub, Curve = Curve ?pub, Params = Some ps\<rparr>"
    by (simp add: ImportPublicPEM_def dec up)
  have three: "\<exists>out pub'. ExportPublicPEM cd L ?pub = Inr out \<and> ImportPublicPEM cd L out = Inr pub' \<and>
        X pub' = X ?pub \<and> Y pub' = Y ?pub"
    using ex im by auto
  from one two three show ?thesis by (intro conjI)
qed

theorem serialization_roundtrip_witness:
  "(\<exists>der pub'. MarshalPublic toy_codec toy_lib (Pub toy_prv256) = Inr der \<and>
      UnmarshalPublic toy_codec toy_lib der = Inr pub' \<and>
      Curve pub' = P256 \<and> X pub' = 15 \<and> Y pub' = 225) \<and>
   (\<exists>der prv'. MarshalPrivate toy_codec toy_lib toy_prv256 = Inr der \<and>
      UnmarshalPrivate toy_codec toy_lib der = Inr prv' \<and>
      Curve (Pub prv') = P256 \<and> X (Pub prv') = 15 \<and> Y (Pub prv') = 225 \<and> D prv' = 5) \<and>
   (\<exists>out pub'. ExportPublicPEM toy_codec toy_lib (Pub toy_prv256) = Inr out \<and>
      ImportPublicPEM toy_codec toy_lib out = Inr pub' \<and> X pub' = 15 \<and> Y pub' = 225)"
proof -
  have nc: "Curve (Pub toy_prv256) \<in> {P224, P256, P384, P521}"
    by (simp add: toy_prv256_def)
  have vp: "valid_point toy_lib (Pub toy_prv256)"
    by (simp add: valid_point_def toy_prv256_def toy_lib_def toy_curve_def)
  have fit: "c_P (curves toy_lib (Curve (Pub toy_prv256)))
      \<le> 2 ^ c_BitSize (curves toy_lib (Curve (Pub toy_prv256)))"
    by (simp add: toy_prv256_def toy_lib_def toy_curve_def)
  have d: "0 \<le> D toy_prv256" by (simp add: toy_prv256_def)
  have f: "Curve (Pub toy_prv256) = P256" "X (Pub toy_prv256) = 15" "Y (Pub toy_prv256) = 225"
    "D toy_prv256 = 5"
    by (simp_all add: toy_prv256_def)
  from serialization_roundtrip [OF toy_codec_ok toy_codec_encodes nc vp fit d]
  show ?thesis unfolding f .
qed

subsection \<open>C10: Decrypt and panics\<close>

text \<open>C10 fails on a ciphertext with a body of one byte and the right tag for it (anyone who
  knows the public key can compute that tag): the length check of Decrypt lets it pass,
  the tags agree, and symDecrypt panics on a body shorter than the block size. Here on the
  small library: point \<open>4, 21, 186\<close>, body \<open>9\<close>, tag \<open>128, 89\<close>, block size 2.\<close>

theorem Decrypt_short_body_panics:
  "Decrypt toy_lib (provider toy_lib toy_prv) [4, 21, 186, 9, 128, 89] [] [] = Inl Panic"
  by (simp add: model_defs toy_defs eval_simps)

end
